theory Spec2Isabelle
  imports Main "HOL-Library.Word" "HOL-Library.Char_ord" "HOL-Library.List_Lexorder"
begin

section \<open>Binary log: entries and their framing (storage/binlog.h, storage/binlog.cc)\<close>

text \<open>
  A \<^verbatim>\<open>std::string\<close> is a list of bytes: \<^typ>\<open>string\<close>. The 64-bit terms are
  \<^typ>\<open>64 word\<close>, read as signed with \<^const>\<open>sint\<close>. Log indices and lengths are
  \<^verbatim>\<open>int64_t\<close> in the source and \<^typ>\<open>int\<close> here: they count log entries and stay
  far from the ends of the 64-bit range. A function of the source that can abort the
  process (a failed \<^verbatim>\<open>assert\<close>, an uncaught exception, a read outside a buffer)
  returns an \<^typ>\<open>'a option\<close>, and \<^const>\<open>None\<close> is the abort.
\<close>

text \<open>
  A value of the enumeration \<^verbatim>\<open>LogOperation\<close>, carried as its byte:
  \<^verbatim>\<open>LogEntry::Dump\<close> stores \<^verbatim>\<open>static_cast<uint8_t>(op)\<close>, \<^verbatim>\<open>LogEntry::Load\<close> casts
  the stored byte back without looking at it, and the tag in front of a stored value is
  \<^verbatim>\<open>static_cast<char>(op)\<close>, here \<open>op_char\<close>. So a loaded entry may carry a byte
  that is none of the enumerators.
\<close>

datatype LogOperation = LogOperation (op_char: char)

text \<open>
  Modelled from the spec: the enumerators of \<^verbatim>\<open>LogOperation\<close> are declared in
  proto/ins_node.proto, which is not among the sources. The spec names the eight
  operations and says that the op tag is one byte; the numbers below stand for the
  declared ones. Only that they are distinct is ever used.
\<close>

definition kPut :: LogOperation where
  "kPut = LogOperation (CHR 0x01)"

definition kDel :: LogOperation where
  "kDel = LogOperation (CHR 0x02)"

definition kNop :: LogOperation where
  "kNop = LogOperation (CHR 0x03)"

definition kLock :: LogOperation where
  "kLock = LogOperation (CHR 0x04)"

definition kUnLock :: LogOperation where
  "kUnLock = LogOperation (CHR 0x05)"

definition kLogin :: LogOperation where
  "kLogin = LogOperation (CHR 0x06)"

definition kLogout :: LogOperation where
  "kLogout = LogOperation (CHR 0x07)"

definition kRegister :: LogOperation where
  "kRegister = LogOperation (CHR 0x08)"

record LogEntry =
  e_op :: LogOperation
  e_user :: string
  e_key :: string
  e_value :: string
  e_term :: "64 word"

text \<open>
  \<^verbatim>\<open>memcpy\<close> of an integer of \<open>k\<close> bytes in host byte order; the Makefile builds for
  Linux on x86, little-endian. \<open>le_bytes k n\<close> are the low \<open>k\<close> bytes of \<open>n\<close>, so a
  size is narrowed to its \<^verbatim>\<open>int32_t\<close> bit pattern as the source's initialisation does.
\<close>

fun le_bytes :: "nat \<Rightarrow> nat \<Rightarrow> string" where
  "le_bytes 0 n = []"
| "le_bytes (Suc k) n = char_of n # le_bytes k (n div 256)"

fun le_value :: "string \<Rightarrow> nat" where
  "le_value [] = 0"
| "le_value (c # cs) = of_char c + 256 * le_value cs"

text \<open>The buffer that \<^verbatim>\<open>LogEntry::Dump\<close> fills, field after field.\<close>

definition framing :: "LogEntry \<Rightarrow> string" where
  "framing e =
     [op_char (e_op e)]
     @ le_bytes 4 (length (e_user e)) @ e_user e
     @ le_bytes 4 (length (e_key e)) @ e_key e
     @ le_bytes 4 (length (e_value e)) @ e_value e
     @ le_bytes 8 (unat (e_term e))"

text \<open>
  \<^verbatim>\<open>LogEntry::Dump\<close> returns the buffer and \<^verbatim>\<open>total_len\<close>. The length is computed
  in \<^verbatim>\<open>size_t\<close> and narrowed to \<^verbatim>\<open>int32_t\<close>: from \<open>2 ^ 31\<close> on the narrowed
  value is negative or wrapped, \<^verbatim>\<open>buf->resize(total_len)\<close> throws or leaves a buffer
  shorter than what \<^verbatim>\<open>memcpy\<close> writes, and the call does not return.
\<close>

definition Dump :: "LogEntry \<Rightarrow> (string \<times> int) option" where
  "Dump e =
     (let total_len = 1 + 4 + length (e_user e) + 4 + length (e_key e)
                      + 4 + length (e_value e) + 8
      in if total_len \<ge> 2 ^ 31 then None else Some (framing e, int total_len))"

text \<open>
  One length-prefixed field of \<^verbatim>\<open>LogEntry::Load\<close>: the \<^verbatim>\<open>int32_t\<close> size, then
  that many bytes. A negative size makes \<^verbatim>\<open>resize\<close> throw; a size beyond the rest of
  the buffer makes \<^verbatim>\<open>memcpy\<close> read outside it.
\<close>

definition load_field :: "string \<Rightarrow> (string \<times> string) option" where
  "load_field p =
     (if length p < 4 then None
      else let n = le_value (take 4 p); rest = drop 4 p
           in if n \<ge> 2 ^ 31 then None
              else if length rest < n then None
              else Some (take n rest, drop n rest))"

text \<open>
  \<^verbatim>\<open>LogEntry::Load\<close>: the op byte is cast to \<^verbatim>\<open>LogOperation\<close> whatever it is; the
  three fields follow, then the eight bytes of the term. A buffer without the op byte
  or shorter than the term is read outside its end.
\<close>

definition Load :: "string \<Rightarrow> LogEntry option" where
  "Load buf =
     (case buf of
        [] \<Rightarrow> None
      | opcode # p \<Rightarrow>
          (case load_field p of
             None \<Rightarrow> None
           | Some (u, p1) \<Rightarrow>
               (case load_field p1 of
                  None \<Rightarrow> None
                | Some (k, p2) \<Rightarrow>
                    (case load_field p2 of
                       None \<Rightarrow> None
                     | Some (v, p3) \<Rightarrow>
                         if length p3 < 8 then None
                         else Some \<lparr>e_op = LogOperation opcode, e_user = u, e_key = k,
                                    e_value = v,
                                    e_term = word_of_nat (le_value (take 8 p3))\<rparr>))))"

section \<open>Binary log: the logger (storage/binlog.cc)\<close>

text \<open>
  The LevelDB instance behind the logger holds one slot per index, under the key
  \<^verbatim>\<open>IntToString(index)\<close> (injective on indices, so the model keys the slots by the
  index), and the length under the key \<^verbatim>\<open>#BINLOG_LEN#\<close>. The store itself is an
  external collaborator and its calls are taken to succeed.
\<close>

record BinLogger =
  db :: "int \<rightharpoonup> string"
  length_tag :: "int option"
  log_length :: int
  last_log_term :: "64 word"

definition GetLength :: "BinLogger \<Rightarrow> int" where
  "GetLength bl = log_length bl"

definition GetLastLogIndex :: "BinLogger \<Rightarrow> int" where
  "GetLastLogIndex bl = log_length bl - 1"

definition GetLastLogIndexAndTerm :: "BinLogger \<Rightarrow> int \<times> 64 word" where
  "GetLastLogIndexAndTerm bl = (log_length bl - 1, last_log_term bl)"

text \<open>
  \<^verbatim>\<open>BinLogger::ReadSlot\<close>: \<open>Some None\<close> is the return value \<^verbatim>\<open>false\<close> (not found),
  \<open>Some (Some e)\<close> is \<^verbatim>\<open>true\<close> with the loaded entry, \<open>None\<close> the abort inside
  \<^verbatim>\<open>Load\<close>. The length of the log is not consulted.
\<close>

definition ReadSlot :: "BinLogger \<Rightarrow> int \<Rightarrow> LogEntry option option" where
  "ReadSlot bl slot_index =
     (case db bl slot_index of
        None \<Rightarrow> Some None
      | Some buf \<Rightarrow> (case Load buf of None \<Rightarrow> None | Some e \<Rightarrow> Some (Some e)))"

definition AppendEntry :: "BinLogger \<Rightarrow> LogEntry \<Rightarrow> BinLogger option" where
  "AppendEntry bl log_entry =
     (case Dump log_entry of
        None \<Rightarrow> None
      | Some (buf, n) \<Rightarrow>
          Some (bl\<lparr>db := (db bl)(log_length bl \<mapsto> buf),
                   length_tag := Some (log_length bl + 1),
                   log_length := log_length bl + 1,
                   last_log_term := e_term log_entry\<rparr>))"

text \<open>
  \<^verbatim>\<open>BinLogger::AppendEntryList\<close>: one write batch with every entry, at
  \<open>cur_index + i\<close>, and the new length.
\<close>

fun batch_put :: "(int \<rightharpoonup> string) \<Rightarrow> int \<Rightarrow> LogEntry list \<Rightarrow> (int \<rightharpoonup> string) option" where
  "batch_put d i [] = Some d"
| "batch_put d i (e # es) =
     (case Dump e of
        None \<Rightarrow> None
      | Some (buf, n) \<Rightarrow> batch_put (d(i \<mapsto> buf)) (i + 1) es)"

definition AppendEntryList :: "BinLogger \<Rightarrow> LogEntry list \<Rightarrow> BinLogger option" where
  "AppendEntryList bl entries =
     (case batch_put (db bl) (log_length bl) entries of
        None \<Rightarrow> None
      | Some d \<Rightarrow>
          Some (bl\<lparr>db := d,
                   length_tag := Some (log_length bl + int (length entries)),
                   log_length := log_length bl + int (length entries),
                   last_log_term := (if entries = [] then last_log_term bl
                                      else e_term (last entries))\<rparr>))"

text \<open>
  \<^verbatim>\<open>BinLogger::Truncate\<close>: the length cursor moves; no slot is deleted. With a
  non-empty result the last kept slot is read back for its term, under
  \<^verbatim>\<open>assert(slot_ok)\<close> (the Makefile's default build keeps assertions).
\<close>

definition Truncate :: "BinLogger \<Rightarrow> int \<Rightarrow> BinLogger option" where
  "Truncate bl trunk_slot_index =
     (let t = (if trunk_slot_index < -1 then -1 else trunk_slot_index);
          bl1 = bl\<lparr>log_length := t + 1, length_tag := Some (t + 1)\<rparr>
      in if log_length bl1 > 0
         then (case ReadSlot bl1 (log_length bl1 - 1) of
                 None \<Rightarrow> None
               | Some None \<Rightarrow> None
               | Some (Some log_entry) \<Rightarrow> Some (bl1\<lparr>last_log_term := e_term log_entry\<rparr>))
         else Some bl1)"

text \<open>The logger as the constructor leaves it on an empty directory.\<close>

definition empty_binlog :: BinLogger where
  "empty_binlog = \<lparr>db = Map.empty, length_tag = None, log_length = 0, last_log_term = - 1\<rparr>"

section \<open>Application store (storage/storage_manage.cc)\<close>

text \<open>
  One LevelDB instance per namespace. An instance is an ordered key/value store: the
  model keeps it as a list of pairs in ascending key order (bytewise, the order of
  \<^typ>\<open>string\<close> here), which is what its iterator walks through. \<^verbatim>\<open>dbs_\<close> maps
  the opened namespaces to their instances. Opening an instance is taken to succeed,
  and a namespace that was never opened is taken to be empty on disk.
\<close>

datatype Status = kOk | kNotFound | kUnknownUser | kError

type_synonym leveldb = "(string \<times> string) list"

type_synonym StorageManager = "string \<rightharpoonup> leveldb"

fun db_put :: "string \<Rightarrow> string \<Rightarrow> leveldb \<Rightarrow> leveldb" where
  "db_put k v [] = [(k, v)]"
| "db_put k v ((k', v') # rest) =
     (if k < k' then (k, v) # (k', v') # rest
      else if k = k' then (k, v) # rest
      else (k', v') # db_put k v rest)"

definition db_delete :: "string \<Rightarrow> leveldb \<Rightarrow> leveldb" where
  "db_delete k d = filter (\<lambda>p. fst p \<noteq> k) d"

definition anonymous_user :: string where
  "anonymous_user = ''''"

definition OpenDatabase :: "StorageManager \<Rightarrow> string \<Rightarrow> bool \<times> StorageManager" where
  "OpenDatabase sm name =
     (case sm name of Some d \<Rightarrow> (True, sm) | None \<Rightarrow> (True, sm(name \<mapsto> [])))"

text \<open>\<^verbatim>\<open>StorageManager::Get\<close>: the status and the value read (left empty without one).\<close>

definition Store_Get :: "StorageManager \<Rightarrow> string \<Rightarrow> string \<Rightarrow> Status \<times> string" where
  "Store_Get sm name k =
     (case sm name of
        None \<Rightarrow> (kUnknownUser, '''')
      | Some d \<Rightarrow> (case map_of d k of None \<Rightarrow> (kNotFound, '''') | Some v \<Rightarrow> (kOk, v)))"

definition Store_Put :: "StorageManager \<Rightarrow> string \<Rightarrow> string \<Rightarrow> string \<Rightarrow> Status \<times> StorageManager" where
  "Store_Put sm name k v =
     (case sm name of
        None \<Rightarrow> (kUnknownUser, sm)
      | Some d \<Rightarrow> (kOk, sm(name \<mapsto> db_put k v d)))"

definition Store_Delete :: "StorageManager \<Rightarrow> string \<Rightarrow> string \<Rightarrow> Status \<times> StorageManager" where
  "Store_Delete sm name k =
     (case sm name of
        None \<Rightarrow> (kUnknownUser, sm)
      | Some d \<Rightarrow> (kOk, sm(name \<mapsto> db_delete k d)))"

text \<open>\<^verbatim>\<open>NewIterator\<close> followed by \<^verbatim>\<open>Seek(start_key)\<close>: the entries from the first key
  that is not below \<open>start_key\<close>; \<open>None\<close> is the \<^verbatim>\<open>NULL\<close> iterator.\<close>

definition NewIterator_Seek :: "StorageManager \<Rightarrow> string \<Rightarrow> string \<Rightarrow> leveldb option" where
  "NewIterator_Seek sm name start_key =
     (case sm name of
        None \<Rightarrow> None
      | Some d \<Rightarrow> Some (dropWhile (\<lambda>p. fst p < start_key) d))"

section \<open>Meta files (storage/meta.cc)\<close>

text \<open>The term file and the vote file are appended to; a read takes the last record.\<close>

record Meta =
  term_file :: "64 word list"
  vote_file :: "(64 word \<times> string) list"

definition WriteCurrentTerm :: "Meta \<Rightarrow> 64 word \<Rightarrow> Meta" where
  "WriteCurrentTerm m current_term = m\<lparr>term_file := term_file m @ [current_term]\<rparr>"

definition WriteVotedFor :: "Meta \<Rightarrow> 64 word \<Rightarrow> string \<Rightarrow> Meta" where
  "WriteVotedFor m t server_id = m\<lparr>vote_file := vote_file m @ [(t, server_id)]\<rparr>"

section \<open>User manager\<close>

text \<open>
  Modelled from the spec: server/user_manage.cc is not among the sources. The spec
  gives the user manager a credential table (username to password), a table of the
  logged-in tokens, \<^verbatim>\<open>is_logged_in(token)\<close>, \<^verbatim>\<open>token_to_username(token)\<close>
  (the anonymous user for an empty or unknown token), \<^verbatim>\<open>login\<close>, \<^verbatim>\<open>logout\<close> and
  \<^verbatim>\<open>register\<close>.
\<close>

record UserManager =
  user_list :: "string \<rightharpoonup> string"
  logged_users :: "string \<rightharpoonup> string"

definition IsLoggedIn :: "UserManager \<Rightarrow> string \<Rightarrow> bool" where
  "IsLoggedIn um uuid = (logged_users um uuid \<noteq> None)"

definition GetUsernameFromUuid :: "UserManager \<Rightarrow> string \<Rightarrow> string" where
  "GetUsernameFromUuid um uuid = (case logged_users um uuid of None \<Rightarrow> '''' | Some n \<Rightarrow> n)"

definition um_Login :: "UserManager \<Rightarrow> string \<Rightarrow> string \<Rightarrow> string \<Rightarrow> Status \<times> UserManager" where
  "um_Login um name passwd uuid =
     (case user_list um name of
        None \<Rightarrow> (kUnknownUser, um)
      | Some p \<Rightarrow> if p = passwd then (kOk, um\<lparr>logged_users := (logged_users um)(uuid \<mapsto> name)\<rparr>)
                  else (kError, um))"

definition um_Logout :: "UserManager \<Rightarrow> string \<Rightarrow> Status \<times> UserManager" where
  "um_Logout um uuid =
     (case logged_users um uuid of
        None \<Rightarrow> (kUnknownUser, um)
      | Some n \<Rightarrow> (kOk, um\<lparr>logged_users := (logged_users um)(uuid := None)\<rparr>))"

definition um_Register :: "UserManager \<Rightarrow> string \<Rightarrow> string \<Rightarrow> Status \<times> UserManager" where
  "um_Register um name passwd =
     (case user_list um name of
        Some p \<Rightarrow> (kError, um)
      | None \<Rightarrow> (kOk, um\<lparr>user_list := (user_list um)(name \<mapsto> passwd)\<rparr>))"

section \<open>The node (server/ins_node_impl.cc)\<close>

datatype NodeStatus = kFollower | kCandidate | kLeader

record Flags =
  max_write_pending :: int
  max_commit_pending :: int
  session_expire_timeout :: int
  elect_timeout_min :: int

record Session =
  last_report_time :: int
  session_uuid :: string

record WatchEvent =
  we_key :: string
  we_session_id :: string

datatype AckKind = PutAck | DelAck | LockAck | UnLockAck | LoginAck | LogoutAck | RegisterAck

text \<open>
  The fields of \<^verbatim>\<open>InsNodeImpl\<close> that the handlers below read or write, under the
  source's names without the trailing underscore. \<open>commit_cond_signals\<close> counts the
  calls of \<^verbatim>\<open>commit_cond_->Signal()\<close>, which wake the application worker;
  \<open>event_trigger\<close> is the queue of pending \<^verbatim>\<open>TriggerEventWithParent\<close> calls
  (bound key, value, deleted). \<open>client_ack\<close> maps a log index to the responses that
  wait for it.
\<close>

record InsNode =
  members :: "string list"
  self_id :: string
  current_term :: "64 word"
  status :: NodeStatus
  current_leader :: string
  heartbeat_count :: int
  voted_for :: "64 word \<rightharpoonup> string"
  meta :: Meta
  binlogger :: BinLogger
  data_store :: StorageManager
  user_manager :: UserManager
  sessions :: "string \<rightharpoonup> Session"
  session_locks :: "string \<rightharpoonup> string set"
  watch_events :: "WatchEvent list"
  client_ack :: "int \<rightharpoonup> AckKind set"
  in_safe_mode :: bool
  server_start_timestamp :: int
  heartbeat_read_timestamp :: int
  commit_index :: int
  last_applied_index :: int
  single_node_mode :: bool
  match_index :: "string \<rightharpoonup> int"
  next_index :: "string \<rightharpoonup> int"
  commit_cond_signals :: nat
  event_trigger :: "(string \<times> string \<times> bool) list"
  flags :: Flags

definition tag_last_applied_index :: string where
  "tag_last_applied_index = ''#TAG_LAST_APPLIED_INDEX#''"

definition sMaxPBSize :: nat where
  "sMaxPBSize = 26 * 2 ^ 20"

definition TransToFollower :: "InsNode \<Rightarrow> 64 word \<Rightarrow> InsNode" where
  "TransToFollower s new_term =
     s\<lparr>status := kFollower, current_term := new_term,
       meta := WriteCurrentTerm (meta s) new_term\<rparr>"

definition BindKeyAndUser :: "string \<Rightarrow> string \<Rightarrow> string" where
  "BindKeyAndUser user k = user @ ''::'' @ k"

subsection \<open>Vote\<close>

record VoteRequest =
  vq_term :: "64 word"
  vq_candidate_id :: string
  vq_last_log_index :: int
  vq_last_log_term :: "64 word"

record VoteResponse =
  vote_granted :: bool
  vr_term :: "64 word"

definition Vote :: "InsNode \<Rightarrow> VoteRequest \<Rightarrow> InsNode \<times> VoteResponse" where
  "Vote s request =
     (if sint (vq_term request) < sint (current_term s)
      then (s, \<lparr>vote_granted = False, vr_term = current_term s\<rparr>)
      else
        let (last_log_index, last_log_term) = GetLastLogIndexAndTerm (binlogger s)
        in if sint (vq_last_log_term request) < sint last_log_term
           then (s, \<lparr>vote_granted = False, vr_term = current_term s\<rparr>)
           else if vq_last_log_term request = last_log_term
                   \<and> vq_last_log_index request < last_log_index
           then (s, \<lparr>vote_granted = False, vr_term = current_term s\<rparr>)
           else
             let s1 = (if sint (vq_term request) > sint (current_term s)
                       then TransToFollower s (vq_term request) else s)
             in (case voted_for s1 (current_term s1) of
                   Some c \<Rightarrow>
                     if c \<noteq> vq_candidate_id request
                     then (s1, \<lparr>vote_granted = False, vr_term = current_term s1\<rparr>)
                     else (s1, \<lparr>vote_granted = True, vr_term = current_term s1\<rparr>)
                 | None \<Rightarrow>
                     (s1\<lparr>voted_for := (voted_for s1)(current_term s1 \<mapsto> vq_candidate_id request),
                         meta := WriteVotedFor (meta s1) (current_term s1)
                                   (vq_candidate_id request)\<rparr>,
                      \<lparr>vote_granted = True, vr_term = current_term s1\<rparr>)))"

subsection \<open>UpdateCommitIndex and the reply branch of ReplicateLog\<close>

text \<open>
  The counting loop of \<^verbatim>\<open>UpdateCommitIndex\<close>. \<^verbatim>\<open>match_index_[server]\<close> is
  \<^verbatim>\<open>std::map::operator[]\<close>: a server without an entry gets the entry 0 before the
  comparison.
\<close>

fun count_match :: "string list \<Rightarrow> (string \<rightharpoonup> int) \<Rightarrow> int \<Rightarrow> nat \<Rightarrow> (string \<rightharpoonup> int) \<times> nat" where
  "count_match [] m a_index match_count = (m, match_count)"
| "count_match (server # rest) m a_index match_count =
     (let m1 = (case m server of None \<Rightarrow> m(server \<mapsto> 0) | Some v \<Rightarrow> m);
          v = (case m server of None \<Rightarrow> 0 | Some v \<Rightarrow> v)
      in count_match rest m1 a_index (if v \<ge> a_index then match_count + 1 else match_count))"

definition UpdateCommitIndex :: "InsNode \<Rightarrow> int \<Rightarrow> InsNode" where
  "UpdateCommitIndex s a_index =
     (let (m, match_count) = count_match (members s) (match_index s) a_index 0;
          s1 = s\<lparr>match_index := m\<rparr>
      in if match_count \<ge> card (dom m) div 2 \<and> a_index > commit_index s1
         then s1\<lparr>commit_index := a_index, commit_cond_signals := commit_cond_signals s1 + 1\<rparr>
         else s1)"

record AppendEntriesRequest =
  aq_term :: "64 word"
  aq_leader_id :: string
  aq_prev_log_index :: int
  aq_prev_log_term :: "64 word"
  aq_leader_commit_index :: int
  aq_entries :: "LogEntry list"

record AppendEntriesResponse =
  ar_current_term :: "64 word"
  ar_success :: bool
  ar_log_length :: int
  ar_is_busy :: bool

text \<open>
  \<^verbatim>\<open>ReplicateLog\<close>, from the return of the RPC to the end of the loop body: \<open>ok\<close>
  is the RPC's result, \<open>index\<close>, \<open>batch_span\<close> and \<open>max_term\<close> are the locals
  computed before the request was sent (\<open>max_term\<close> the largest term in the batch).
\<close>

definition ReplicateLog_reply ::
    "InsNode \<Rightarrow> string \<Rightarrow> int \<Rightarrow> int \<Rightarrow> 64 word \<Rightarrow> bool \<Rightarrow> AppendEntriesResponse \<Rightarrow> InsNode" where
  "ReplicateLog_reply s follower_id index batch_span max_term ok response =
     (let s1 = (if ok \<and> sint (ar_current_term response) > sint (current_term s)
                then TransToFollower s (ar_current_term response) else s)
      in if status s1 \<noteq> kLeader then s1
         else if ok then
           (if ar_success response then
              (let s2 = s1\<lparr>next_index := (next_index s1)(follower_id \<mapsto> index + batch_span),
                          match_index := (match_index s1)(follower_id \<mapsto> index + batch_span - 1)\<rparr>
               in if max_term = current_term s2
                  then UpdateCommitIndex s2 (index + batch_span - 1) else s2)
            else if ar_is_busy response then s1
            else
              (let cur = (case next_index s1 follower_id of None \<Rightarrow> 0 | Some v \<Rightarrow> v);
                   n = min (cur - 1) (ar_log_length response)
               in s1\<lparr>next_index := (next_index s1)(follower_id \<mapsto> (if n < 0 then 0 else n))\<rparr>))
         else s1)"

subsection \<open>The follower's AppendEntries handler\<close>

definition DoAppendEntries ::
    "InsNode \<Rightarrow> AppendEntriesRequest \<Rightarrow> (InsNode \<times> AppendEntriesResponse) option" where
  "DoAppendEntries s request =
     (if sint (aq_term request) < sint (current_term s)
      then Some (s, \<lparr>ar_current_term = current_term s, ar_success = False,
                     ar_log_length = GetLength (binlogger s), ar_is_busy = False\<rparr>)
      else
        let s1 = (if status s \<noteq> kFollower then s\<lparr>status := kFollower\<rparr> else s);
            s2 = (if sint (aq_term request) > sint (current_term s1)
                  then s1\<lparr>current_term := aq_term request,
                          meta := WriteCurrentTerm (meta s1) (aq_term request)\<rparr>
                  else s1);
            s3 = s2\<lparr>current_leader := aq_leader_id request,
                    heartbeat_count := heartbeat_count s2 + 1\<rparr>;
            finish = (\<lambda>s4.
               let old_commit_index = commit_index s4;
                   s5 = s4\<lparr>commit_index := min (GetLastLogIndex (binlogger s4))
                                               (aq_leader_commit_index request)\<rparr>;
                   s6 = (if commit_index s5 > old_commit_index
                         then s5\<lparr>commit_cond_signals := commit_cond_signals s5 + 1\<rparr> else s5)
               in Some (s6, \<lparr>ar_current_term = current_term s6, ar_success = True,
                              ar_log_length = GetLength (binlogger s6), ar_is_busy = False\<rparr>));
            refuse = (\<lambda>s4 busy.
               Some (s4, \<lparr>ar_current_term = current_term s4, ar_success = False,
                           ar_log_length = GetLength (binlogger s4), ar_is_busy = busy\<rparr>))
        in if length (aq_entries request) > 0 then
             (if aq_prev_log_index request \<ge> GetLength (binlogger s3) then refuse s3 False
              else
                (case (if aq_prev_log_index request \<ge> 0
                       then (case ReadSlot (binlogger s3) (aq_prev_log_index request) of
                               Some (Some prev_log_entry) \<Rightarrow> Some (e_term prev_log_entry)
                             | _ \<Rightarrow> None)
                       else Some (- 1)) of
                   None \<Rightarrow> None
                 | Some prev_log_term \<Rightarrow>
                     if prev_log_term \<noteq> aq_prev_log_term request then
                       (case Truncate (binlogger s3) (aq_prev_log_index request - 1) of
                          None \<Rightarrow> None
                        | Some bl \<Rightarrow> refuse (s3\<lparr>binlogger := bl\<rparr>) False)
                     else if commit_index s3 - last_applied_index s3
                               > max_commit_pending (flags s3)
                     then refuse s3 True
                     else
                       (case (if GetLength (binlogger s3) > aq_prev_log_index request + 1
                              then Truncate (binlogger s3) (aq_prev_log_index request)
                              else Some (binlogger s3)) of
                          None \<Rightarrow> None
                        | Some bl \<Rightarrow>
                            (case AppendEntryList bl (aq_entries request) of
                               None \<Rightarrow> None
                             | Some bl' \<Rightarrow> finish (s3\<lparr>binlogger := bl'\<rparr>)))))
           else finish s3)"

subsection \<open>Stored values, sessions, parent keys\<close>

text \<open>
  \<^verbatim>\<open>ParseValue\<close> splits a stored value into its tag byte and the rest, and leaves its
  outputs alone on an empty value: \<open>None\<close>. The callers declare \<^verbatim>\<open>LogOperation op;\<close>
  without a value, so a caller that reads \<open>op\<close> after \<open>None\<close> reads whatever the
  variable held. Where that can only follow a stored value that is empty, which no
  write of the node produces, the model gives the call no result; \<^verbatim>\<open>Watch\<close>, which
  reads \<open>op\<close> also when nothing is stored, takes the byte as an argument. The tag is
  compared as a byte: \<^verbatim>\<open>op == kLock\<close> is \<open>opc = op_char kLock\<close>.
\<close>

definition ParseValue :: "string \<Rightarrow> (char \<times> string) option" where
  "ParseValue v = (case v of [] \<Rightarrow> None | c # real_value \<Rightarrow> Some (c, real_value))"

definition IsExpiredSession :: "InsNode \<Rightarrow> string \<Rightarrow> bool" where
  "IsExpiredSession s session_id = (sessions s session_id = None)"

text \<open>\<^verbatim>\<open>GetParentKey\<close>: the key up to its last \<^verbatim>\<open>/\<close>, if it has one.\<close>

definition GetParentKey :: "string \<Rightarrow> string option" where
  "GetParentKey k =
     (if CHR ''/'' \<in> set k
      then Some (rev (tl (dropWhile (\<lambda>c. c \<noteq> CHR ''/'') (rev k))))
      else None)"

definition TouchParentKey ::
    "StorageManager \<Rightarrow> string \<Rightarrow> string \<Rightarrow> string \<Rightarrow> string \<Rightarrow> StorageManager" where
  "TouchParentKey sm user k changed_session action =
     (case GetParentKey k of
        Some parent_key \<Rightarrow>
          snd (Store_Put sm user parent_key (op_char kPut # (action @ '','' @ changed_session)))
      | None \<Rightarrow> sm)"

subsection \<open>Get and the read-quorum callback\<close>

record GetRequest =
  gq_key :: string
  gq_uuid :: string

record GetResponse =
  gr_hit :: bool
  gr_success :: bool
  gr_leader_id :: string
  gr_value :: string
  gr_uuid_expired :: bool

definition empty_GetResponse :: GetResponse where
  "empty_GetResponse = \<lparr>gr_hit = False, gr_success = False, gr_leader_id = '''',
                          gr_value = '''', gr_uuid_expired = False\<rparr>"

text \<open>The context of a read that waits for a quorum of heartbeats; \<open>done_runs\<close> counts
  the calls of \<^verbatim>\<open>done->Run()\<close>.\<close>

record ClientReadAck =
  cr_request :: GetRequest
  cr_response :: GetResponse
  succ_count :: nat
  err_count :: nat
  triggered :: bool
  done_runs :: nat

datatype GetOutcome = GetReplied GetResponse | GetBroadcast ClientReadAck

text \<open>
  The read of the local store and the filling of the response; the same statements
  stand in \<^verbatim>\<open>Get\<close> (local branch) and in \<^verbatim>\<open>HeartbeatForReadCallback\<close>.
\<close>

definition read_local :: "InsNode \<Rightarrow> string \<Rightarrow> string \<Rightarrow> GetResponse \<Rightarrow> GetResponse option" where
  "read_local s uuid k response =
     (let (st, v) = Store_Get (data_store s) (GetUsernameFromUuid (user_manager s) uuid) k
      in if st = kOk then
           (case ParseValue v of
              None \<Rightarrow> None
            | Some (opc, real_value) \<Rightarrow>
                if opc = op_char kLock then
                  (if IsExpiredSession s real_value
                   then Some (response\<lparr>gr_hit := False, gr_success := True, gr_leader_id := ''''\<rparr>)
                   else Some (response\<lparr>gr_hit := True, gr_success := True,
                                       gr_value := real_value, gr_leader_id := ''''\<rparr>))
                else Some (response\<lparr>gr_hit := True, gr_success := True,
                                    gr_value := real_value, gr_leader_id := ''''\<rparr>))
         else Some (response\<lparr>gr_hit := False, gr_success := True, gr_leader_id := ''''\<rparr>))"

text \<open>\<^verbatim>\<open>Get\<close> at time \<open>now\<close> (microseconds). The node's fields are not written.\<close>

definition Get :: "InsNode \<Rightarrow> int \<Rightarrow> GetRequest \<Rightarrow> GetOutcome option" where
  "Get s now request =
     (if status s = kFollower
      then Some (GetReplied (empty_GetResponse\<lparr>gr_hit := False,
                   gr_leader_id := current_leader s, gr_success := False\<rparr>))
      else if status s = kCandidate
      then Some (GetReplied (empty_GetResponse\<lparr>gr_hit := False, gr_leader_id := '''',
                   gr_success := False\<rparr>))
      else if status s = kLeader \<and> in_safe_mode s
      then Some (GetReplied (empty_GetResponse\<lparr>gr_hit := False, gr_leader_id := '''',
                   gr_success := False\<rparr>))
      else if gq_uuid request \<noteq> [] \<and> \<not> IsLoggedIn (user_manager s) (gq_uuid request)
      then Some (GetReplied (empty_GetResponse\<lparr>gr_hit := False, gr_leader_id := '''',
                   gr_success := False, gr_uuid_expired := True\<rparr>))
      else if length (members s) > 1
              \<and> now - heartbeat_read_timestamp s > 1000 * elect_timeout_min (flags s)
      then Some (GetBroadcast \<lparr>cr_request = request, cr_response = empty_GetResponse,
                   succ_count = 1, err_count = 0, triggered = False, done_runs = 0\<rparr>)
      else map_option GetReplied
             (read_local s (gq_uuid request) (gq_key request) empty_GetResponse))"

definition read_failed :: "ClientReadAck \<Rightarrow> ClientReadAck" where
  "read_failed c =
     c\<lparr>cr_response := (cr_response c)\<lparr>gr_success := False, gr_hit := False,
                                        gr_leader_id := ''''\<rparr>,
       done_runs := done_runs c + 1, triggered := True\<rparr>"

definition HeartbeatForReadCallback ::
    "InsNode \<Rightarrow> int \<Rightarrow> ClientReadAck \<Rightarrow> AppendEntriesResponse \<Rightarrow> bool
       \<Rightarrow> (InsNode \<times> ClientReadAck) option" where
  "HeartbeatForReadCallback s now c response failed =
     (if triggered c then Some (s, c)
      else if status s \<noteq> kLeader then Some (s, read_failed c)
      else if \<not> failed \<and> sint (ar_current_term response) > sint (current_term s)
      then Some (TransToFollower s (ar_current_term response), read_failed c)
      else
        let c1 = (if \<not> failed then c\<lparr>succ_count := succ_count c + 1\<rparr>
                  else c\<lparr>err_count := err_count c + 1\<rparr>)
        in (case (if succ_count c1 > length (members s) div 2
                  then (case read_local s (gq_uuid (cr_request c1)) (gq_key (cr_request c1))
                               (cr_response c1) of
                          None \<Rightarrow> None
                        | Some r \<Rightarrow>
                            Some (s\<lparr>heartbeat_read_timestamp := now\<rparr>,
                                  c1\<lparr>cr_response := r, done_runs := done_runs c1 + 1,
                                     triggered := True\<rparr>))
                  else Some (s, c1)) of
              None \<Rightarrow> None
            | Some (s2, c2) \<Rightarrow>
                if err_count c2 > length (members s2) div 2
                then Some (s2, read_failed c2) else Some (s2, c2)))"

subsection \<open>Writes: Put, Delete, UnLock\<close>

text \<open>
  \<^verbatim>\<open>PutResponse\<close>, \<^verbatim>\<open>DelResponse\<close>, \<^verbatim>\<open>LockResponse\<close> and
  \<^verbatim>\<open>UnLockResponse\<close> carry the same three fields that the handlers set. A handler
  returns \<open>Some r\<close> when it has run \<^verbatim>\<open>done\<close> on the response \<open>r\<close>, and \<open>None\<close>
  when the response is held in \<open>client_ack\<close> until the entry is applied.
\<close>

record AckResponse =
  ak_success :: bool
  ak_leader_id :: string
  ak_uuid_expired :: bool

definition empty_AckResponse :: AckResponse where
  "empty_AckResponse = \<lparr>ak_success = False, ak_leader_id = '''', ak_uuid_expired = False\<rparr>"

definition redirect :: "string \<Rightarrow> AckResponse" where
  "redirect leader = empty_AckResponse\<lparr>ak_success := False, ak_leader_id := leader\<rparr>"

definition uuid_expired_reply :: AckResponse where
  "uuid_expired_reply =
     empty_AckResponse\<lparr>ak_success := False, ak_leader_id := '''', ak_uuid_expired := True\<rparr>"

text \<open>
  The tail that \<^verbatim>\<open>Put\<close>, \<^verbatim>\<open>Delete\<close>, \<^verbatim>\<open>Lock\<close> and \<^verbatim>\<open>UnLock\<close> share:
  append the entry, register the response at the new last index, and in single-node
  mode call \<^verbatim>\<open>UpdateCommitIndex\<close>.
\<close>

definition append_and_ack :: "InsNode \<Rightarrow> LogEntry \<Rightarrow> AckKind \<Rightarrow> InsNode option" where
  "append_and_ack s log_entry kind =
     (case AppendEntry (binlogger s) log_entry of
        None \<Rightarrow> None
      | Some bl \<Rightarrow>
          let s1 = s\<lparr>binlogger := bl\<rparr>;
              cur_index = GetLastLogIndex (binlogger s1);
              old = (case client_ack s1 cur_index of None \<Rightarrow> {} | Some A \<Rightarrow> A);
              s2 = s1\<lparr>client_ack := (client_ack s1)(cur_index \<mapsto> insert kind old)\<rparr>
          in Some (if single_node_mode s2
                   then UpdateCommitIndex s2 (GetLastLogIndex (binlogger s2)) else s2))"

record PutRequest =
  pq_key :: string
  pq_value :: string
  pq_uuid :: string

definition Put :: "InsNode \<Rightarrow> PutRequest \<Rightarrow> (InsNode \<times> AckResponse option) option" where
  "Put s request =
     (if status s = kFollower then Some (s, Some (redirect (current_leader s)))
      else if status s = kCandidate then Some (s, Some (redirect ''''))
      else if 0 \<le> max_write_pending (flags s)
              \<and> int (card (dom (client_ack s))) > max_write_pending (flags s)
      then Some (s, Some (redirect ''''))
      else if pq_uuid request \<noteq> [] \<and> \<not> IsLoggedIn (user_manager s) (pq_uuid request)
      then Some (s, Some uuid_expired_reply)
      else map_option (\<lambda>s'. (s', None))
             (append_and_ack s
                \<lparr>e_op = kPut, e_user = GetUsernameFromUuid (user_manager s) (pq_uuid request),
                 e_key = pq_key request, e_value = pq_value request,
                 e_term = current_term s\<rparr> PutAck))"

record DelRequest =
  dq_key :: string
  dq_uuid :: string

definition Delete :: "InsNode \<Rightarrow> DelRequest \<Rightarrow> (InsNode \<times> AckResponse option) option" where
  "Delete s request =
     (if status s = kFollower then Some (s, Some (redirect (current_leader s)))
      else if status s = kCandidate then Some (s, Some (redirect ''''))
      else if dq_uuid request \<noteq> [] \<and> \<not> IsLoggedIn (user_manager s) (dq_uuid request)
      then Some (s, Some uuid_expired_reply)
      else map_option (\<lambda>s'. (s', None))
             (append_and_ack s
                \<lparr>e_op = kDel, e_user = GetUsernameFromUuid (user_manager s) (dq_uuid request),
                 e_key = dq_key request, e_value = '''', e_term = current_term s\<rparr> DelAck))"

record LockRequest =
  lq_key :: string
  lq_session_id :: string
  lq_uuid :: string

definition UnLock :: "InsNode \<Rightarrow> LockRequest \<Rightarrow> (InsNode \<times> AckResponse option) option" where
  "UnLock s request =
     (if status s = kFollower then Some (s, Some (redirect (current_leader s)))
      else if status s = kCandidate then Some (s, Some (redirect ''''))
      else if lq_uuid request \<noteq> [] \<and> \<not> IsLoggedIn (user_manager s) (lq_uuid request)
      then Some (s, Some uuid_expired_reply)
      else map_option (\<lambda>s'. (s', None))
             (append_and_ack s
                \<lparr>e_op = kUnLock, e_user = GetUsernameFromUuid (user_manager s) (lq_uuid request),
                 e_key = lq_key request, e_value = lq_session_id request,
                 e_term = current_term s\<rparr> UnLockAck))"

subsection \<open>Lock\<close>

definition LockIsAvailable :: "InsNode \<Rightarrow> string \<Rightarrow> string \<Rightarrow> string \<Rightarrow> bool option" where
  "LockIsAvailable s user k session_id =
     (let (st, v) = Store_Get (data_store s) user k
      in if st \<noteq> kOk then Some (sessions s session_id \<noteq> None)
         else
           (case ParseValue v of
              None \<Rightarrow> None
            | Some (opc, old_locker_session) \<Rightarrow>
                if opc \<noteq> op_char kLock then Some False
                else if sessions s old_locker_session = None \<and> sessions s session_id \<noteq> None
                then Some True
                else if sessions s old_locker_session \<noteq> None \<and> old_locker_session = session_id
                then Some True
                else Some False))"

definition Lock :: "InsNode \<Rightarrow> int \<Rightarrow> LockRequest \<Rightarrow> (InsNode \<times> AckResponse option) option" where
  "Lock s now request =
     (if status s = kFollower then Some (s, Some (redirect (current_leader s)))
      else if status s = kCandidate then Some (s, Some (redirect ''''))
      else if lq_uuid request \<noteq> [] \<and> \<not> IsLoggedIn (user_manager s) (lq_uuid request)
      then Some (s, Some uuid_expired_reply)
      else if status s = kLeader \<and> in_safe_mode s then Some (s, Some (redirect ''''))
      else if status s = kLeader
              \<and> now - server_start_timestamp s < session_expire_timeout (flags s)
      then Some (s, Some (redirect ''''))
      else
        let k = lq_key request;
            session_id = lq_session_id request;
            user = GetUsernameFromUuid (user_manager s) (lq_uuid request);
            log_entry = \<lparr>e_op = kLock, e_user = user, e_key = k, e_value = session_id,
                         e_term = current_term s\<rparr>
        in (case LockIsAvailable s user k session_id of
              None \<Rightarrow> None
            | Some True \<Rightarrow>
                (case Store_Put (data_store s) user k (op_char kLock # session_id) of
                   (st, sm) \<Rightarrow>
                     if st \<noteq> kOk then None
                     else map_option (\<lambda>s'. (s', None))
                            (append_and_ack (s\<lparr>data_store := sm\<rparr>) log_entry LockAck))
            | Some False \<Rightarrow> Some (s, Some (redirect ''''))))"

subsection \<open>Scan\<close>

record ScanRequest =
  sq_start_key :: string
  sq_end_key :: string
  sq_size_limit :: int
  sq_uuid :: string

record ScanResponse =
  sr_success :: bool
  sr_leader_id :: string
  sr_uuid_expired :: bool
  sr_has_more :: bool
  sr_items :: "(string \<times> string) list"

definition empty_ScanResponse :: ScanResponse where
  "empty_ScanResponse = \<lparr>sr_success = False, sr_leader_id = '''', sr_uuid_expired = False,
                           sr_has_more = False, sr_items = []\<rparr>"

text \<open>
  The \<^verbatim>\<open>for\<close> loop of \<^verbatim>\<open>Scan\<close> over the iterator's remaining entries: the loop
  condition first, then the two \<^verbatim>\<open>break\<close>s, the two \<^verbatim>\<open>continue\<close>s, and the
  item. The result is the items added and \<^verbatim>\<open>has_more\<close>.
\<close>

fun scan_loop ::
    "InsNode \<Rightarrow> string \<Rightarrow> int \<Rightarrow> leveldb \<Rightarrow> int \<Rightarrow> nat \<Rightarrow> (string \<times> string) list
       \<Rightarrow> ((string \<times> string) list \<times> bool) option" where
  "scan_loop s end_key size_limit [] count pb_size items = Some (items, False)"
| "scan_loop s end_key size_limit ((k, v) # rest) count pb_size items =
     (if \<not> (k < end_key \<or> end_key = []) then Some (items, False)
      else if count > size_limit then Some (items, True)
      else if pb_size > sMaxPBSize then Some (items, True)
      else if k = tag_last_applied_index
      then scan_loop s end_key size_limit rest count pb_size items
      else
        (case ParseValue v of
           None \<Rightarrow> None
         | Some (opc, real_value) \<Rightarrow>
             if opc = op_char kLock \<and> IsExpiredSession s real_value
             then scan_loop s end_key size_limit rest count pb_size items
             else scan_loop s end_key size_limit rest (count + 1)
                    (pb_size + length k + length real_value) (items @ [(k, real_value)])))"

definition Scan :: "InsNode \<Rightarrow> int \<Rightarrow> ScanRequest \<Rightarrow> ScanResponse option" where
  "Scan s now request =
     (if status s = kFollower
      then Some (empty_ScanResponse\<lparr>sr_leader_id := current_leader s, sr_success := False\<rparr>)
      else if status s = kCandidate
      then Some (empty_ScanResponse\<lparr>sr_leader_id := '''', sr_success := False\<rparr>)
      else if sq_uuid request \<noteq> [] \<and> \<not> IsLoggedIn (user_manager s) (sq_uuid request)
      then Some (empty_ScanResponse\<lparr>sr_success := False, sr_leader_id := '''',
                   sr_uuid_expired := True\<rparr>)
      else if status s = kLeader \<and> in_safe_mode s
      then Some (empty_ScanResponse\<lparr>sr_leader_id := '''', sr_success := False\<rparr>)
      else if status s = kLeader
              \<and> now - server_start_timestamp s < session_expire_timeout (flags s)
      then Some (empty_ScanResponse\<lparr>sr_leader_id := '''', sr_success := False\<rparr>)
      else
        (case NewIterator_Seek (data_store s)
                (GetUsernameFromUuid (user_manager s) (sq_uuid request))
                (sq_start_key request) of
           None \<Rightarrow> Some (empty_ScanResponse\<lparr>sr_uuid_expired := True, sr_success := True\<rparr>)
         | Some it \<Rightarrow>
             (case scan_loop s (sq_end_key request) (sq_size_limit request) it 0 0 [] of
                None \<Rightarrow> None
              | Some (items, has_more) \<Rightarrow>
                  Some (empty_ScanResponse\<lparr>sr_items := items, sr_has_more := has_more,
                          sr_success := True\<rparr>))))"

subsection \<open>Watch\<close>

record WatchRequest =
  wq_key :: string
  wq_session_id :: string
  wq_old_value :: string
  wq_key_exist :: bool
  wq_uuid :: string

record WatchResponse =
  wr_success :: bool
  wr_leader_id :: string
  wr_uuid_expired :: bool
  wr_watch_key :: string
  wr_key :: string
  wr_value :: string
  wr_deleted :: bool
  wr_canceled :: bool

definition empty_WatchResponse :: WatchResponse where
  "empty_WatchResponse = \<lparr>wr_success = False, wr_leader_id = '''', wr_uuid_expired = False,
                            wr_watch_key = '''', wr_key = '''', wr_value = '''',
                            wr_deleted = False, wr_canceled = False\<rparr>"

text \<open>\<^verbatim>\<open>GetKeyFromEvent\<close>: \<^verbatim>\<open>substr(find_first_of(":") + 2)\<close>; without a colon the
  position is \<^verbatim>\<open>npos + 2 = 1\<close>, and a position beyond the end throws.\<close>

definition GetKeyFromEvent :: "string \<Rightarrow> string option" where
  "GetKeyFromEvent event_key =
     (let pos = (if CHR '':'' \<in> set event_key
                 then length (takeWhile (\<lambda>c. c \<noteq> CHR '':'') event_key) + 2 else 1)
      in if pos > length event_key then None else Some (drop pos event_key))"

text \<open>
  Modelled from the spec: the class \<^verbatim>\<open>WatchAck\<close> is declared in
  server/ins_node_impl.h, which is not among the sources. By the spec a watch is a
  response held until it is triggered or cancelled, and a registration that is erased
  is completed; so the functions below return the responses of the registrations they
  erase.
\<close>

definition RemoveEventBySessionAndKey ::
    "WatchEvent list \<Rightarrow> string \<Rightarrow> string \<Rightarrow> WatchEvent list \<times> WatchResponse list" where
  "RemoveEventBySessionAndKey evs session_id k =
     (filter (\<lambda>e. \<not> (we_session_id e = session_id \<and> we_key e = k)) evs,
      map (\<lambda>e. empty_WatchResponse\<lparr>wr_canceled := True\<rparr>)
        (filter (\<lambda>e. we_session_id e = session_id \<and> we_key e = k) evs))"

definition TriggerEventBySessionAndKey ::
    "WatchEvent list \<Rightarrow> string \<Rightarrow> string \<Rightarrow> string \<Rightarrow> bool
       \<Rightarrow> (WatchEvent list \<times> WatchResponse list) option" where
  "TriggerEventBySessionAndKey evs session_id k v deleted =
     (if filter (\<lambda>e. we_session_id e = session_id \<and> we_key e = k) evs = [] then Some (evs, [])
      else
        (case GetKeyFromEvent k of
           None \<Rightarrow> None
         | Some kk \<Rightarrow>
             Some (filter (\<lambda>e. \<not> (we_session_id e = session_id \<and> we_key e = k)) evs,
                   map (\<lambda>e. empty_WatchResponse\<lparr>wr_watch_key := kk, wr_key := kk,
                                wr_value := v, wr_deleted := deleted, wr_success := True,
                                wr_leader_id := ''''\<rparr>)
                     (filter (\<lambda>e. we_session_id e = session_id \<and> we_key e = k) evs))))"

text \<open>
  The re-read at the end of \<^verbatim>\<open>Watch\<close>, after the registration: the watch fires
  at once if the stored value or its existence differs from what the client supplied,
  or if the tag is \<^verbatim>\<open>kLock\<close> and the value names an expired session. The result is
  the remaining registrations and the responses fired. \<open>op0\<close> is the byte that the
  local \<^verbatim>\<open>LogOperation op;\<close> holds before \<^verbatim>\<open>ParseValue\<close> is called: it is what
  \<^verbatim>\<open>op == kLock\<close> reads when the value read is empty, as it is when nothing is stored.
\<close>

definition watch_reread ::
    "InsNode \<Rightarrow> char \<Rightarrow> WatchRequest \<Rightarrow> string \<Rightarrow> string
       \<Rightarrow> (WatchEvent list \<times> WatchResponse list) option" where
  "watch_reread s1 op0 request user bindedkey =
     (let (st, raw_value) = Store_Get (data_store s1) user (wq_key request);
          key_exist = (st = kOk);
          (opc, real_value) = (case ParseValue raw_value of
                                 None \<Rightarrow> (op0, '''')
                               | Some (c, r) \<Rightarrow> (c, r))
      in if real_value \<noteq> wq_old_value request \<or> key_exist \<noteq> wq_key_exist request
         then TriggerEventBySessionAndKey (watch_events s1) (wq_session_id request)
                bindedkey real_value (st = kNotFound)
         else if opc = op_char kLock \<and> IsExpiredSession s1 real_value
         then TriggerEventBySessionAndKey (watch_events s1) (wq_session_id request)
                bindedkey '''' True
         else Some (watch_events s1, []))"

text \<open>
  \<^verbatim>\<open>Watch\<close> at time \<open>now\<close>: the new node, the response the handler itself sends
  (a rejection) if any, and the responses of the registrations completed by the call.
\<close>

definition Watch ::
    "InsNode \<Rightarrow> int \<Rightarrow> char \<Rightarrow> WatchRequest
       \<Rightarrow> (InsNode \<times> WatchResponse option \<times> WatchResponse list) option" where
  "Watch s now op0 request =
     (if status s = kFollower
      then Some (s, Some (empty_WatchResponse\<lparr>wr_success := False,
                            wr_leader_id := current_leader s\<rparr>), [])
      else if status s = kCandidate
      then Some (s, Some (empty_WatchResponse\<lparr>wr_success := False, wr_leader_id := ''''\<rparr>), [])
      else if wq_uuid request \<noteq> [] \<and> \<not> IsLoggedIn (user_manager s) (wq_uuid request)
      then Some (s, Some (empty_WatchResponse\<lparr>wr_success := False, wr_leader_id := '''',
                            wr_uuid_expired := True\<rparr>), [])
      else
        let user = GetUsernameFromUuid (user_manager s) (wq_uuid request);
            bindedkey = BindKeyAndUser user (wq_key request);
            (evs1, canceled) = RemoveEventBySessionAndKey (watch_events s)
                                 (wq_session_id request) bindedkey;
            s1 = s\<lparr>watch_events := evs1 @ [\<lparr>we_key = bindedkey,
                                             we_session_id = wq_session_id request\<rparr>]\<rparr>
        in if now - server_start_timestamp s > session_expire_timeout (flags s)
           then map_option
                  (\<lambda>(evs2, fired). (s1\<lparr>watch_events := evs2\<rparr>, None, canceled @ fired))
                  (watch_reread s1 op0 request user bindedkey)
           else Some (s1, None, canceled))"

subsection \<open>The application worker\<close>

text \<open>A store operation of the worker, retried after \<^verbatim>\<open>OpenDatabase\<close> when the
  namespace was not open.\<close>

definition put_open :: "StorageManager \<Rightarrow> string \<Rightarrow> string \<Rightarrow> string \<Rightarrow> Status \<times> StorageManager" where
  "put_open sm user k v =
     (case Store_Put sm user k v of
        (st, sm1) \<Rightarrow>
          if st = kUnknownUser
          then (case OpenDatabase sm1 user of
                  (ok, sm2) \<Rightarrow> if ok then Store_Put sm2 user k v else (st, sm2))
          else (st, sm1))"

definition delete_open :: "StorageManager \<Rightarrow> string \<Rightarrow> string \<Rightarrow> Status \<times> StorageManager" where
  "delete_open sm user k =
     (case Store_Delete sm user k of
        (st, sm1) \<Rightarrow>
          if st = kUnknownUser
          then (case OpenDatabase sm1 user of
                  (ok, sm2) \<Rightarrow> if ok then Store_Delete sm2 user k else (st, sm2))
          else (st, sm1))"

text \<open>\<^verbatim>\<open>BinLogger::IntToString\<close>: the eight bytes of an \<^verbatim>\<open>int64_t\<close>.\<close>

definition IntToString :: "int \<Rightarrow> string" where
  "IntToString num = le_bytes 8 (nat (num mod 2 ^ 64))"

text \<open>
  The \<^verbatim>\<open>switch\<close> of \<^verbatim>\<open>CommitIndexObserv\<close> on one entry, run without the node's
  mutex: the node after the operation, \<^verbatim>\<open>nop_committed\<close>, \<^verbatim>\<open>log_status\<close> and
  \<^verbatim>\<open>new_uuid\<close>. \<^verbatim>\<open>kPut\<close> and \<^verbatim>\<open>kLock\<close> share one case, in which the parent key
  is touched and the lock recorded under \<^verbatim>\<open>if (log_entry.op == kLock)\<close>. An op that
  is no enumerator takes the \<^verbatim>\<open>default\<close> branch, which only logs. A failed
  \<^verbatim>\<open>assert(s == kOk)\<close> is \<open>None\<close>.
\<close>

definition apply_op ::
    "InsNode \<Rightarrow> bool \<Rightarrow> LogEntry \<Rightarrow> (InsNode \<times> bool \<times> Status \<times> string) option" where
  "apply_op s nop_committed log_entry =
     (if e_op log_entry = kPut \<or> e_op log_entry = kLock then
        (case put_open (data_store s) (e_user log_entry) (e_key log_entry)
                (op_char (e_op log_entry) # e_value log_entry) of
           (st, sm) \<Rightarrow>
             let sm1 = (if e_op log_entry = kLock
                        then TouchParentKey sm (e_user log_entry) (e_key log_entry)
                               (e_value log_entry) ''lock''
                        else sm);
                 s1 = s\<lparr>data_store := sm1,
                        event_trigger := event_trigger s
                          @ [(BindKeyAndUser (e_user log_entry) (e_key log_entry),
                              e_value log_entry, False)]\<rparr>;
                 s2 = (if e_op log_entry = kLock
                       then s1\<lparr>session_locks := (session_locks s1)(e_value log_entry \<mapsto>
                                 insert (e_key log_entry)
                                   (case session_locks s1 (e_value log_entry) of
                                      None \<Rightarrow> {} | Some ks \<Rightarrow> ks))\<rparr>
                       else s1)
             in if st \<noteq> kOk then None else Some (s2, nop_committed, kError, ''''))
      else if e_op log_entry = kDel then
        (case delete_open (data_store s) (e_user log_entry) (e_key log_entry) of
           (st, sm) \<Rightarrow>
             if st \<noteq> kOk then None
             else Some (s\<lparr>data_store := sm,
                          event_trigger := event_trigger s
                            @ [(BindKeyAndUser (e_user log_entry) (e_key log_entry),
                                e_value log_entry, True)]\<rparr>,
                        nop_committed, kError, ''''))
      else if e_op log_entry = kNop then
        Some (s, (if e_term log_entry = current_term s then True else nop_committed),
              kError, '''')
      else if e_op log_entry = kUnLock then
        (case Store_Get (data_store s) (e_user log_entry) (e_key log_entry) of
           (st, v) \<Rightarrow>
             if st = kOk then
               (case ParseValue v of
                  None \<Rightarrow> None
                | Some (opc, cur_session) \<Rightarrow>
                    if opc = op_char kLock \<and> cur_session = e_value log_entry then
                      (case delete_open (data_store s) (e_user log_entry) (e_key log_entry) of
                         (st2, sm) \<Rightarrow>
                           if st2 \<noteq> kOk then None
                           else Some (s\<lparr>data_store := TouchParentKey sm (e_user log_entry)
                                                        (e_key log_entry) cur_session ''unlock'',
                                        event_trigger := event_trigger s
                                          @ [(BindKeyAndUser (e_user log_entry) (e_key log_entry),
                                              e_value log_entry, True)]\<rparr>,
                                      nop_committed, kError, ''''))
                    else Some (s, nop_committed, kError, ''''))
             else Some (s, nop_committed, kError, ''''))
      else if e_op log_entry = kLogin then
        (case um_Login (user_manager s) (e_key log_entry) (e_value log_entry)
                (e_user log_entry) of
           (log_status, um) \<Rightarrow>
             if log_status = kOk
             then Some (s\<lparr>user_manager := um,
                          data_store := snd (OpenDatabase (data_store s) (e_key log_entry))\<rparr>,
                        nop_committed, log_status, e_user log_entry)
             else Some (s\<lparr>user_manager := um\<rparr>, nop_committed, log_status, ''''))
      else if e_op log_entry = kLogout then
        (case um_Logout (user_manager s) (e_user log_entry) of
           (log_status, um) \<Rightarrow> Some (s\<lparr>user_manager := um\<rparr>, nop_committed, log_status, ''''))
      else if e_op log_entry = kRegister then
        (case um_Register (user_manager s) (e_key log_entry) (e_value log_entry) of
           (log_status, um) \<Rightarrow> Some (s\<lparr>user_manager := um\<rparr>, nop_committed, log_status, ''''))
      else Some (s, nop_committed, kError, ''''))"

text \<open>
  One iteration of the worker's \<^verbatim>\<open>for\<close> loop, for the index \<open>i\<close>: read the slot
  (\<^verbatim>\<open>assert(slot_ok)\<close>), run the operation, then under the mutex leave safe mode,
  complete the responses waiting for \<open>i\<close>, advance \<^verbatim>\<open>last_applied_index_\<close> and
  persist it in the anonymous namespace (\<^verbatim>\<open>assert(sp == kOk)\<close>). The third
  component holds the completed responses with \<^verbatim>\<open>log_status\<close> and \<^verbatim>\<open>new_uuid\<close>.
\<close>

definition apply_entry ::
    "InsNode \<Rightarrow> bool \<Rightarrow> int \<Rightarrow> (InsNode \<times> bool \<times> (AckKind set \<times> Status \<times> string) option) option" where
  "apply_entry s nop_committed i =
     (case ReadSlot (binlogger s) i of
        Some (Some log_entry) \<Rightarrow>
          (case apply_op s nop_committed log_entry of
             None \<Rightarrow> None
           | Some (s1, nop1, log_status, new_uuid) \<Rightarrow>
               let s2 = (if status s1 = kLeader \<and> nop1 then s1\<lparr>in_safe_mode := False\<rparr> else s1);
                   acked = (if status s2 = kLeader
                            then map_option (\<lambda>A. (A, log_status, new_uuid)) (client_ack s2 i)
                            else None);
                   s3 = (if status s2 = kLeader \<and> client_ack s2 i \<noteq> None
                         then s2\<lparr>client_ack := (client_ack s2)(i := None)\<rparr> else s2);
                   s4 = s3\<lparr>last_applied_index := last_applied_index s3 + 1\<rparr>
               in (case Store_Put (data_store s4) anonymous_user tag_last_applied_index
                          (IntToString (last_applied_index s4)) of
                     (sp, sm) \<Rightarrow>
                       if sp \<noteq> kOk then None
                       else Some (s4\<lparr>data_store := sm\<rparr>, nop1, acked)))
      | _ \<Rightarrow> None)"

text \<open>One wake-up of the worker: the entries from \<open>last_applied + 1\<close> to
  \<open>commit_index\<close>, in order.\<close>

function apply_window :: "InsNode \<Rightarrow> bool \<Rightarrow> int \<Rightarrow> int \<Rightarrow> InsNode option" where
  "apply_window s nop_committed i to_idx =
     (if i \<le> to_idx
      then (case apply_entry s nop_committed i of
              None \<Rightarrow> None
            | Some (s', nop', acked) \<Rightarrow> apply_window s' nop' (i + 1) to_idx)
      else Some s)"
  by pat_completeness auto
termination
  by (relation "measure (\<lambda>(s, n, i, t). nat (t + 1 - i))") auto

declare apply_window.simps [simp del]

definition CommitIndexObserv :: "InsNode \<Rightarrow> InsNode option" where
  "CommitIndexObserv s =
     (if commit_index s \<le> last_applied_index s then Some s
      else apply_window s False (last_applied_index s + 1) (commit_index s))"

text \<open>\<^verbatim>\<open>TryToBeLeader\<close> in single-node mode.\<close>

definition TryToBeLeader_single :: "InsNode \<Rightarrow> InsNode" where
  "TryToBeLeader_single s =
     s\<lparr>status := kLeader, current_leader := self_id s, in_safe_mode := False,
       commit_index := last_applied_index s, current_term := current_term s + 1,
       meta := WriteCurrentTerm (meta s) (current_term s + 1)\<rparr>"

subsection \<open>Conditions in the words of the spec\<close>

text \<open>The candidate's log is at least as up to date as the node's: its last term is
  greater, or the last terms are equal and its last index is not smaller.\<close>

definition log_up_to_date :: "InsNode \<Rightarrow> VoteRequest \<Rightarrow> bool" where
  "log_up_to_date s request =
     (sint (vq_last_log_term request) > sint (last_log_term (binlogger s))
      \<or> (vq_last_log_term request = last_log_term (binlogger s)
          \<and> vq_last_log_index request \<ge> log_length (binlogger s) - 1))"

text \<open>The number of followers whose match index has reached \<open>idx\<close>.\<close>

definition followers_matching :: "InsNode \<Rightarrow> int \<Rightarrow> nat" where
  "followers_matching s idx =
     length (filter (\<lambda>f. f \<noteq> self_id s
                          \<and> (case match_index s f of None \<Rightarrow> False | Some v \<Rightarrow> v \<ge> idx))
               (members s))"

text \<open>What \<^verbatim>\<open>match_index_[server]\<close> reads: 0 for a server without an entry.\<close>

definition match_value :: "(string \<rightharpoonup> int) \<Rightarrow> string \<Rightarrow> int" where
  "match_value m x = (case m x of None \<Rightarrow> 0 | Some v \<Rightarrow> v)"

text \<open>The value stored under a key of a namespace, if the namespace is open and holds
  the key.\<close>

definition stored :: "StorageManager \<Rightarrow> string \<Rightarrow> string \<Rightarrow> string option" where
  "stored sm name k = (case sm name of None \<Rightarrow> None | Some d \<Rightarrow> map_of d k)"

text \<open>
  What the re-read of \<^verbatim>\<open>Watch\<close> takes for a change: the value stored under the
  key, without its tag, differs from the old value of the request, or its existence
  from \<open>key_exist\<close>; or neither differs, the tag is Lock and the value names a session
  that is not in the session table. With nothing stored the value is empty and the tag
  is the byte \<open>op0\<close>.
\<close>

definition watch_changed :: "InsNode \<Rightarrow> char \<Rightarrow> WatchRequest \<Rightarrow> bool" where
  "watch_changed s op0 wq =
     (let v = stored (data_store s) (GetUsernameFromUuid (user_manager s) (wq_uuid wq))
                (wq_key wq);
          real_value = (case v of Some (c # r) \<Rightarrow> r | _ \<Rightarrow> '''');
          tag = (case v of Some (c # r) \<Rightarrow> c | _ \<Rightarrow> op0)
      in real_value \<noteq> wq_old_value wq \<or> (v \<noteq> None) \<noteq> wq_key_exist wq
         \<or> (tag = op_char kLock \<and> sessions s real_value = None))"

text \<open>The framed size of the entry fits the \<^verbatim>\<open>int32_t\<close> in which \<^verbatim>\<open>Dump\<close>
  computes it.\<close>

definition fits_int32 :: "LogEntry \<Rightarrow> bool" where
  "fits_int32 e = (21 + length (e_user e) + length (e_key e) + length (e_value e) < 2 ^ 31)"

text \<open>
  The availability of a lock, in the three cases of the spec: (a) the key is unset and
  the caller's session exists; (b) the key holds a Lock-tagged value whose session is
  gone and the caller's session exists; (c) the key holds the Lock-tagged value of the
  caller's own session, which exists.
\<close>

definition lock_grantable :: "InsNode \<Rightarrow> string \<Rightarrow> string \<Rightarrow> string \<Rightarrow> bool" where
  "lock_grantable s user k session_id =
     ((stored (data_store s) user k = None \<and> sessions s session_id \<noteq> None)
      \<or> (case stored (data_store s) user k of
            Some (c # owner) \<Rightarrow>
              c = op_char kLock \<and> sessions s owner = None \<and> sessions s session_id \<noteq> None
          | _ \<Rightarrow> False)
      \<or> (stored (data_store s) user k = Some (op_char kLock # session_id)
          \<and> sessions s session_id \<noteq> None))"

subsection \<open>Example logs\<close>

definition ex_entry_a :: LogEntry where
  "ex_entry_a = \<lparr>e_op = kPut, e_user = '''', e_key = ''x'', e_value = ''1'', e_term = 1\<rparr>"

definition ex_entry_b :: LogEntry where
  "ex_entry_b = \<lparr>e_op = kDel, e_user = '''', e_key = ''y'', e_value = '''', e_term = 1\<rparr>"

text \<open>The log after appending \<open>ex_entry_a\<close> and \<open>ex_entry_b\<close> to an empty one (lemma
  \<open>ex_log_built\<close>), and the same log after \<^verbatim>\<open>Truncate(0)\<close>.\<close>

definition ex_log :: BinLogger where
  "ex_log = \<lparr>db = [0 \<mapsto> framing ex_entry_a, 1 \<mapsto> framing ex_entry_b],
              length_tag = Some 2, log_length = 2, last_log_term = 1\<rparr>"

definition ex_log_truncated :: BinLogger where
  "ex_log_truncated = \<lparr>db = [0 \<mapsto> framing ex_entry_a, 1 \<mapsto> framing ex_entry_b],
                        length_tag = Some 1, log_length = 1, last_log_term = 1\<rparr>"

text \<open>An entry whose value alone brings the framed size to \<open>2 ^ 31\<close> bytes.\<close>

definition ex_entry_huge :: LogEntry where
  "ex_entry_huge = \<lparr>e_op = kPut, e_user = '''', e_key = '''',
                     e_value = replicate (2 ^ 31 - 21) (CHR ''a''), e_term = 0\<rparr>"

subsection \<open>Example nodes and requests\<close>

definition ex_flags :: Flags where
  "ex_flags = \<lparr>max_write_pending = 10000, max_commit_pending = 10000,
                session_expire_timeout = 6000000, elect_timeout_min = 150\<rparr>"

text \<open>A follower \<open>A\<close> of the cluster \<open>A, B, C\<close> at term 1, with the two entries of
  \<open>ex_log\<close> committed and applied.\<close>

definition ex_node :: InsNode where
  "ex_node =
     \<lparr>members = [''A'', ''B'', ''C''], self_id = ''A'', current_term = 1,
      status = kFollower, current_leader = ''B'', heartbeat_count = 0,
      voted_for = Map.empty, meta = \<lparr>term_file = [], vote_file = []\<rparr>,
      binlogger = ex_log, data_store = [anonymous_user \<mapsto> []],
      user_manager = \<lparr>user_list = Map.empty, logged_users = Map.empty\<rparr>,
      sessions = Map.empty, session_locks = Map.empty, watch_events = [],
      client_ack = Map.empty, in_safe_mode = True, server_start_timestamp = 0,
      heartbeat_read_timestamp = 0, commit_index = 1, last_applied_index = 1,
      single_node_mode = False, match_index = Map.empty, next_index = Map.empty,
      commit_cond_signals = 0, event_trigger = [], flags = ex_flags\<rparr>"

text \<open>A heartbeat of the leader \<open>B\<close> at the same term, whose commit index is 0.\<close>

definition ex_heartbeat :: AppendEntriesRequest where
  "ex_heartbeat = \<lparr>aq_term = 1, aq_leader_id = ''B'', aq_prev_log_index = 0,
                    aq_prev_log_term = 0, aq_leader_commit_index = 0, aq_entries = []\<rparr>"

text \<open>The node as leader of term 2, with both followers at match index 1 and commit
  index 0; both entries of its log are of term 1.\<close>

definition ex_leader :: InsNode where
  "ex_leader = ex_node\<lparr>status := kLeader, current_term := 2, current_leader := ''A'',
                       commit_index := 0, last_applied_index := 0,
                       match_index := [''B'' \<mapsto> 1, ''C'' \<mapsto> 1],
                       next_index := [''B'' \<mapsto> 2, ''C'' \<mapsto> 2]\<rparr>"

text \<open>The same leader at term 1, the term of its entries.\<close>

definition ex_leader1 :: InsNode where
  "ex_leader1 = ex_leader\<lparr>current_term := 1\<rparr>"

text \<open>A vote request of a higher term from a candidate whose log is behind, and one
  from a candidate whose log matches.\<close>

definition ex_vote_stale :: VoteRequest where
  "ex_vote_stale = \<lparr>vq_term = 2, vq_candidate_id = ''C'', vq_last_log_index = 5,
                     vq_last_log_term = 0\<rparr>"

definition ex_vote_fresh :: VoteRequest where
  "ex_vote_fresh = \<lparr>vq_term = 2, vq_candidate_id = ''C'', vq_last_log_index = 1,
                     vq_last_log_term = 1\<rparr>"

text \<open>A leader in safe mode, and the same leader out of it.\<close>

definition ex_safe_leader :: InsNode where
  "ex_safe_leader = ex_leader1\<lparr>in_safe_mode := True\<rparr>"

definition ex_open_leader :: InsNode where
  "ex_open_leader = ex_leader1\<lparr>in_safe_mode := False\<rparr>"

definition ex_watch_request :: WatchRequest where
  "ex_watch_request = \<lparr>wq_key = ''k'', wq_session_id = ''S1'', wq_old_value = '''',
                        wq_key_exist = False, wq_uuid = ''''\<rparr>"

definition ex_get_request :: GetRequest where
  "ex_get_request = \<lparr>gq_key = ''k'', gq_uuid = ''''\<rparr>"

definition ex_put_request :: PutRequest where
  "ex_put_request = \<lparr>pq_key = ''k'', pq_value = ''v'', pq_uuid = ''''\<rparr>"

definition ex_del_request :: DelRequest where
  "ex_del_request = \<lparr>dq_key = ''k'', dq_uuid = ''''\<rparr>"

definition ex_lock_request :: LockRequest where
  "ex_lock_request = \<lparr>lq_key = ''k'', lq_session_id = ''S1'', lq_uuid = ''''\<rparr>"

definition ex_scan_request :: ScanRequest where
  "ex_scan_request = \<lparr>sq_start_key = '''', sq_end_key = '''', sq_size_limit = 1,
                       sq_uuid = ''''\<rparr>"

text \<open>A leader out of safe mode whose anonymous namespace holds two plain values.\<close>

definition ex_scan_node :: InsNode where
  "ex_scan_node =
     ex_open_leader\<lparr>data_store := [anonymous_user \<mapsto>
        [(''a'', op_char kPut # ''1''), (''b'', op_char kPut # ''2'')]]\<rparr>"

text \<open>A leader out of safe mode on which the key \<open>k\<close> holds the lock of the session
  \<open>S1\<close>, which is no longer in the session table.\<close>

definition ex_lock_node :: InsNode where
  "ex_lock_node =
     ex_open_leader\<lparr>data_store := [anonymous_user \<mapsto> [(''k'', op_char kLock # ''S1'')]]\<rparr>"

text \<open>The same with the sessions \<open>S1\<close> and \<open>S2\<close> alive.\<close>

definition ex_lock_node_live :: InsNode where
  "ex_lock_node_live =
     ex_lock_node\<lparr>sessions := [''S1'' \<mapsto> \<lparr>last_report_time = 6500000, session_uuid = ''''\<rparr>,
                               ''S2'' \<mapsto> \<lparr>last_report_time = 6500000, session_uuid = ''''\<rparr>]\<rparr>"

text \<open>A node whose log holds, at index 0, a Put and, at index 1, a Lock by the session
  \<open>S1\<close>, both on the key \<open>a/b/c\<close>; nothing is applied yet.\<close>

definition ex_entry_put_child :: LogEntry where
  "ex_entry_put_child = \<lparr>e_op = kPut, e_user = '''', e_key = ''a/b/c'', e_value = ''v'',
                          e_term = 1\<rparr>"

definition ex_entry_lock_child :: LogEntry where
  "ex_entry_lock_child = \<lparr>e_op = kLock, e_user = '''', e_key = ''a/b/c'', e_value = ''S1'',
                           e_term = 1\<rparr>"

definition ex_apply_node :: InsNode where
  "ex_apply_node =
     ex_node\<lparr>binlogger := \<lparr>db = [0 \<mapsto> framing ex_entry_put_child,
                                  1 \<mapsto> framing ex_entry_lock_child],
                            length_tag = Some 2, log_length = 2, last_log_term = 1\<rparr>,
             commit_index := 1, last_applied_index := - 1\<rparr>"

definition ex_apply_node_after_put :: InsNode where
  "ex_apply_node_after_put =
     ex_apply_node\<lparr>data_store := [anonymous_user \<mapsto>
                      [(tag_last_applied_index, IntToString 0),
                       (''a/b/c'', op_char kPut # ''v'')]],
                   event_trigger := [(''::a/b/c'', ''v'', False)],
                   last_applied_index := 0\<rparr>"

text \<open>A read context with the leader's own success counted, and a follower's reply to the
  heartbeat.\<close>

definition ex_read_ack :: ClientReadAck where
  "ex_read_ack = \<lparr>cr_request = ex_get_request, cr_response = empty_GetResponse,
                   succ_count = 1, err_count = 0, triggered = False, done_runs = 0\<rparr>"

definition ex_heartbeat_reply :: AppendEntriesResponse where
  "ex_heartbeat_reply = \<lparr>ar_current_term = 1, ar_success = True, ar_log_length = 2,
                          ar_is_busy = False\<rparr>"

text \<open>A node whose log holds, at index 0, the Unlock of the key \<open>a/b/c\<close> by the session
  \<open>S1\<close>, while the key holds the lock of that session.\<close>

definition ex_entry_unlock_child :: LogEntry where
  "ex_entry_unlock_child = \<lparr>e_op = kUnLock, e_user = '''', e_key = ''a/b/c'', e_value = ''S1'',
                             e_term = 1\<rparr>"

definition ex_unlock_node :: InsNode where
  "ex_unlock_node =
     ex_node\<lparr>binlogger := \<lparr>db = [0 \<mapsto> framing ex_entry_unlock_child],
                            length_tag = Some 1, log_length = 1, last_log_term = 1\<rparr>,
             data_store := [anonymous_user \<mapsto> [(''a/b/c'', op_char kLock # ''S1'')]],
             commit_index := 0, last_applied_index := - 1\<rparr>"

text \<open>The same node with the key held by another session, \<open>S2\<close>.\<close>

definition ex_unlock_node_other :: InsNode where
  "ex_unlock_node_other =
     ex_unlock_node\<lparr>data_store := [anonymous_user \<mapsto> [(''a/b/c'', op_char kLock # ''S2'')]]\<rparr>"

text \<open>A follower's successful reply to a batch.\<close>

definition ex_append_reply :: AppendEntriesResponse where
  "ex_append_reply = \<lparr>ar_current_term = 1, ar_success = True, ar_log_length = 2,
                       ar_is_busy = False\<rparr>"

section \<open>Facts about the framing\<close>

lemma le_bytes_length: "length (le_bytes k n) = k"
  by (induction k arbitrary: n) simp_all

lemma le_value_le_bytes: "le_value (le_bytes k n) = n mod 256 ^ k"
proof (induction k arbitrary: n)
  case 0
  show ?case by simp
next
  case (Suc k)
  have "le_value (le_bytes (Suc k) n) = n mod 256 + 256 * ((n div 256) mod 256 ^ k)"
    using Suc.IH [of "n div 256"] by simp
  also have "\<dots> = n mod (256 * 256 ^ k)"
    by (simp add: mod_mult2_eq)
  finally show ?case by simp
qed

lemma enumerators_neq [simp]:
  "kPut \<noteq> kDel" "kPut \<noteq> kNop" "kPut \<noteq> kLock" "kPut \<noteq> kUnLock" "kPut \<noteq> kLogin"
  "kPut \<noteq> kLogout" "kPut \<noteq> kRegister"
  "kDel \<noteq> kPut" "kDel \<noteq> kNop" "kDel \<noteq> kLock" "kDel \<noteq> kUnLock" "kDel \<noteq> kLogin"
  "kDel \<noteq> kLogout" "kDel \<noteq> kRegister"
  "kNop \<noteq> kPut" "kNop \<noteq> kDel" "kNop \<noteq> kLock" "kNop \<noteq> kUnLock" "kNop \<noteq> kLogin"
  "kNop \<noteq> kLogout" "kNop \<noteq> kRegister"
  "kLock \<noteq> kPut" "kLock \<noteq> kDel" "kLock \<noteq> kNop" "kLock \<noteq> kUnLock" "kLock \<noteq> kLogin"
  "kLock \<noteq> kLogout" "kLock \<noteq> kRegister"
  "kUnLock \<noteq> kPut" "kUnLock \<noteq> kDel" "kUnLock \<noteq> kNop" "kUnLock \<noteq> kLock"
  "kUnLock \<noteq> kLogin" "kUnLock \<noteq> kLogout" "kUnLock \<noteq> kRegister"
  "kLogin \<noteq> kPut" "kLogin \<noteq> kDel" "kLogin \<noteq> kNop" "kLogin \<noteq> kLock"
  "kLogin \<noteq> kUnLock" "kLogin \<noteq> kLogout" "kLogin \<noteq> kRegister"
  "kLogout \<noteq> kPut" "kLogout \<noteq> kDel" "kLogout \<noteq> kNop" "kLogout \<noteq> kLock"
  "kLogout \<noteq> kUnLock" "kLogout \<noteq> kLogin" "kLogout \<noteq> kRegister"
  "kRegister \<noteq> kPut" "kRegister \<noteq> kDel" "kRegister \<noteq> kNop" "kRegister \<noteq> kLock"
  "kRegister \<noteq> kUnLock" "kRegister \<noteq> kLogin" "kRegister \<noteq> kLogout"
  by (simp_all add: kNop_def kPut_def kDel_def kLock_def kUnLock_def kLogin_def kLogout_def
        kRegister_def)

lemma op_char_eq_iff [simp]: "op_char x = op_char y \<longleftrightarrow> x = y"
  by (cases x; cases y) simp

lemma load_field_le_bytes:
  assumes "length s < 2 ^ 31"
  shows "load_field (le_bytes 4 (length s) @ s @ rest) = Some (s, rest)"
proof -
  have "length s mod 256 ^ 4 = length s"
    using assms by simp
  then have v: "le_value (le_bytes 4 (length s)) = length s"
    using le_value_le_bytes [of 4 "length s"] by simp
  have t: "take 4 (le_bytes 4 (length s) @ s @ rest) = le_bytes 4 (length s)"
    using le_bytes_length [of 4 "length s"] by simp
  have d: "drop 4 (le_bytes 4 (length s) @ s @ rest) = s @ rest"
    using le_bytes_length [of 4 "length s"] by simp
  have l: "\<not> length (le_bytes 4 (length s) @ s @ rest) < 4"
    using le_bytes_length [of 4 "length s"] by simp
  show ?thesis
    unfolding load_field_def using assms l by (simp only: t d v Let_def) simp
qed

lemma term_le_bytes: "word_of_nat (le_value (le_bytes 8 (unat w))) = (w :: 64 word)"
proof -
  have "unat w < 2 ^ 64"
    using unsigned_less [of w] by simp
  then have "unat w mod 256 ^ 8 = unat w"
    by simp
  then show ?thesis
    using le_value_le_bytes [of 8 "unat w"] by simp
qed

lemma Load_framing:
  assumes "length (e_user e) < 2 ^ 31" "length (e_key e) < 2 ^ 31" "length (e_value e) < 2 ^ 31"
  shows "Load (framing e) = Some e"
proof -
  have c: "LogOperation (op_char (e_op e)) = e_op e"
    by simp
  have f1: "load_field (le_bytes 4 (length (e_user e)) @ e_user e @ r) = Some (e_user e, r)" for r
    using assms(1) by (rule load_field_le_bytes)
  have f2: "load_field (le_bytes 4 (length (e_key e)) @ e_key e @ r) = Some (e_key e, r)" for r
    using assms(2) by (rule load_field_le_bytes)
  have f3: "load_field (le_bytes 4 (length (e_value e)) @ e_value e @ r) = Some (e_value e, r)" for r
    using assms(3) by (rule load_field_le_bytes)
  have l8: "\<not> length (le_bytes 8 (unat (e_term e))) < 8"
    by (simp add: le_bytes_length)
  have t8: "take 8 (le_bytes 8 (unat (e_term e))) = le_bytes 8 (unat (e_term e))"
    by (simp only: le_bytes_length take_all order_refl)
  show ?thesis
    unfolding Load_def framing_def
    by (simp only: append_Cons append_Nil list.case c option.case f1 f2 f3 prod.case l8 t8
          if_False term_le_bytes) simp
qed

lemma Dump_Some:
  assumes "21 + length (e_user e) + length (e_key e) + length (e_value e) < 2 ^ 31"
  shows "Dump e = Some (framing e, 21 + int (length (e_user e)) + int (length (e_key e))
                                    + int (length (e_value e)))"
  using assms by (simp add: Dump_def Let_def)

lemma ReadSlot_AppendEntry_same:
  assumes "AppendEntry bl e = Some bl'"
  shows "ReadSlot bl' (log_length bl) = Some (Some e)"
proof -
  from assms obtain n where d: "Dump e = Some (framing e, n)"
    by (auto simp: AppendEntry_def Dump_def Let_def split: if_splits)
  then have small: "\<not> 21 + length (e_user e) + length (e_key e) + length (e_value e) \<ge> 2 ^ 31"
    by (auto simp: Dump_def Let_def split: if_splits)
  have "Load (framing e) = Some e"
    using small by (intro Load_framing) simp_all
  moreover have "db bl' (log_length bl) = Some (framing e)"
    using assms d by (auto simp: AppendEntry_def)
  ultimately show ?thesis
    by (simp add: ReadSlot_def)
qed

lemma ReadSlot_AppendEntry_other:
  assumes "AppendEntry bl e = Some bl'" "i \<noteq> log_length bl"
  shows "ReadSlot bl' i = ReadSlot bl i"
  using assms by (auto simp: AppendEntry_def ReadSlot_def split: option.splits)

lemma AppendEntry_length:
  assumes "AppendEntry bl e = Some bl'"
  shows "log_length bl' = log_length bl + 1"
  using assms by (auto simp: AppendEntry_def split: option.splits)

lemma framing_length:
  "length (framing e) = 21 + length (e_user e) + length (e_key e) + length (e_value e)"
  by (simp add: framing_def le_bytes_length)

lemma Truncate_Some:
  assumes "- 1 \<le> k" "k = - 1 \<or> (\<exists>e. ReadSlot bl k = Some (Some e))"
  shows "\<exists>t. Truncate bl k = Some (bl\<lparr>log_length := k + 1, length_tag := Some (k + 1),
                                        last_log_term := t\<rparr>)"
proof (cases "k = - 1")
  case True
  then have "Truncate bl k = Some (bl\<lparr>log_length := k + 1, length_tag := Some (k + 1),
                                      last_log_term := last_log_term bl\<rparr>)"
    by (simp add: Truncate_def Let_def)
  then show ?thesis ..
next
  case False
  with assms obtain e where e: "ReadSlot bl k = Some (Some e)" and k: "0 \<le> k"
    by auto
  have "ReadSlot (bl\<lparr>log_length := k + 1, length_tag := Some (k + 1)\<rparr>) k = Some (Some e)"
    using e by (simp add: ReadSlot_def)
  then have "Truncate bl k = Some (bl\<lparr>log_length := k + 1, length_tag := Some (k + 1),
                                      last_log_term := e_term e\<rparr>)"
    using k by (simp add: Truncate_def Let_def)
  then show ?thesis ..
qed

lemma Load_ex_entry_a: "Load (framing ex_entry_a) = Some ex_entry_a"
  by (rule Load_framing) (simp_all add: ex_entry_a_def)

lemma Load_ex_entry_b: "Load (framing ex_entry_b) = Some ex_entry_b"
  by (rule Load_framing) (simp_all add: ex_entry_b_def)

lemma ex_log_built:
  "AppendEntry empty_binlog ex_entry_a =
     Some \<lparr>db = [0 \<mapsto> framing ex_entry_a], length_tag = Some 1, log_length = 1,
           last_log_term = 1\<rparr>"
  "AppendEntry \<lparr>db = [0 \<mapsto> framing ex_entry_a], length_tag = Some 1, log_length = 1,
                last_log_term = 1\<rparr> ex_entry_b = Some ex_log"
  by (simp_all add: AppendEntry_def Dump_def empty_binlog_def ex_log_def
        ex_entry_a_def ex_entry_b_def)

section \<open>Facts about the commit index and the last applied index\<close>

lemma UpdateCommitIndex_commit_index_mono:
  "commit_index s \<le> commit_index (UpdateCommitIndex s a)"
  by (simp add: UpdateCommitIndex_def Let_def split: prod.splits)

lemma UpdateCommitIndex_last_applied:
  "last_applied_index (UpdateCommitIndex s a) = last_applied_index s"
  by (simp add: UpdateCommitIndex_def Let_def split: prod.splits)

lemma DoAppendEntries_last_applied:
  assumes "DoAppendEntries s r = Some (s', resp)"
  shows "last_applied_index s' = last_applied_index s"
  using assms
  by (auto simp: DoAppendEntries_def Let_def split: if_splits option.splits)

lemma apply_op_indices:
  assumes "apply_op s n e = Some (s', n', st, u)"
  shows "last_applied_index s' = last_applied_index s \<and> commit_index s' = commit_index s"
  using assms
  by (auto simp: apply_op_def Let_def split: if_splits option.splits prod.splits)

lemma apply_entry_indices:
  assumes "apply_entry s n i = Some (s', n', a)"
  shows "last_applied_index s' = last_applied_index s + 1 \<and> commit_index s' = commit_index s"
  using assms apply_op_indices
  by (fastforce simp: apply_entry_def Let_def split: if_splits option.splits prod.splits)

lemma apply_window_indices:
  assumes "apply_window s n i t = Some s'"
  shows "last_applied_index s \<le> last_applied_index s' \<and> commit_index s' = commit_index s"
  using assms
proof (induction s n i t rule: apply_window.induct)
  case (1 s n i t)
  note unfold = apply_window.simps [of s n i t]
  show ?case
  proof (cases "i \<le> t")
    case False
    with "1.prems" show ?thesis
      by (simp add: unfold)
  next
    case True
    with "1.prems" obtain s1 n1 a1 where
      e: "apply_entry s n i = Some (s1, n1, a1)" and w: "apply_window s1 n1 (i + 1) t = Some s'"
      by (simp add: unfold split: option.splits prod.splits)
    from "1.IH" [OF True e refl refl w] apply_entry_indices [OF e] show ?thesis
      by simp
  qed
qed

lemma CommitIndexObserv_indices:
  assumes "CommitIndexObserv s = Some s'"
  shows "last_applied_index s \<le> last_applied_index s' \<and> commit_index s' = commit_index s"
  using assms apply_window_indices
  by (auto simp: CommitIndexObserv_def split: if_splits)

section \<open>Facts about votes\<close>

lemma sint_not_less_eq:
  "\<not> sint (a :: 64 word) < sint b \<Longrightarrow> \<not> sint b < sint a \<Longrightarrow> a = b"
  by (rule signed_word_eqI) simp

lemma log_checks:
  "(\<not> sint (vq_last_log_term r) < sint (last_log_term (binlogger s))
    \<and> \<not> (vq_last_log_term r = last_log_term (binlogger s)
          \<and> vq_last_log_index r < log_length (binlogger s) - 1))
   = log_up_to_date s r"
  unfolding log_up_to_date_def using sint_not_less_eq by fastforce

lemma Vote_stale:
  assumes "\<not> log_up_to_date s r"
  shows "Vote s r = (s, \<lparr>vote_granted = False, vr_term = current_term s\<rparr>)"
  using assms log_checks [of r s]
  by (auto simp: Vote_def GetLastLogIndexAndTerm_def Let_def)

lemma Vote_old_term:
  assumes "sint (vq_term r) < sint (current_term s)"
  shows "Vote s r = (s, \<lparr>vote_granted = False, vr_term = current_term s\<rparr>)"
  using assms by (simp add: Vote_def)

lemma Vote_fresh:
  assumes "log_up_to_date s r" "sint (vq_term r) \<ge> sint (current_term s)"
  shows "let s1 = (if sint (vq_term r) > sint (current_term s)
                   then TransToFollower s (vq_term r) else s)
         in current_term s1 = vq_term r \<and>
            Vote s r =
            (case voted_for s (vq_term r) of
               Some c \<Rightarrow> (s1, \<lparr>vote_granted = (c = vq_candidate_id r), vr_term = vq_term r\<rparr>)
             | None \<Rightarrow> (s1\<lparr>voted_for := (voted_for s)(vq_term r \<mapsto> vq_candidate_id r),
                           meta := WriteVotedFor (meta s1) (vq_term r) (vq_candidate_id r)\<rparr>,
                        \<lparr>vote_granted = True, vr_term = vq_term r\<rparr>))"
proof -
  have t: "\<not> sint (vq_term r) < sint (current_term s)"
    using assms(2) by simp
  have l1: "(sint (vq_last_log_term r) < sint (last_log_term (binlogger s))) = False"
    using assms(1) log_checks [of r s] by auto
  have l2: "(vq_last_log_term r = last_log_term (binlogger s)
              \<and> vq_last_log_index r < log_length (binlogger s) - 1) = False"
    using assms(1) log_checks [of r s] by auto
  show ?thesis
  proof (cases "sint (vq_term r) > sint (current_term s)")
    case True
    then show ?thesis
      using t
      by (simp add: Vote_def GetLastLogIndexAndTerm_def Let_def TransToFollower_def l1 l2
            split: option.splits)
  next
    case False
    then have "vq_term r = current_term s"
      using t sint_not_less_eq by blast
    then show ?thesis
      using t False
      by (simp add: Vote_def GetLastLogIndexAndTerm_def Let_def l1 l2 split: option.splits)
  qed
qed

section \<open>Facts about the counting loop\<close>

lemma count_match_eq:
  "count_match xs m a c =
     (\<lambda>x. if x \<in> set xs \<and> m x = None then Some 0 else m x,
      c + length (filter (\<lambda>x. match_value m x \<ge> a) xs))"
proof (induction xs arbitrary: m c)
  case Nil
  show ?case by simp
next
  case (Cons x xs)
  let ?m1 = "(case m x of None \<Rightarrow> m(x \<mapsto> 0) | Some v \<Rightarrow> m)"
  have v: "match_value ?m1 y = match_value m y" for y
    by (simp add: match_value_def split: option.splits)
  have f: "(\<lambda>y. if y \<in> set xs \<and> ?m1 y = None then Some 0 else ?m1 y)
           = (\<lambda>y. if y \<in> set (x # xs) \<and> m y = None then Some 0 else m y)"
    by (auto simp: fun_eq_iff split: option.splits)
  show ?case
    using Cons.IH [of ?m1] v f
    by (simp add: Let_def match_value_def split: option.splits)
qed

lemma count_match_dom:
  "dom (fst (count_match xs m a c)) = dom m \<union> set xs"
  by (auto simp: count_match_eq dom_def split: if_splits)

lemma majority_arith: "(f \<ge> n div 2) = (2 * (1 + f) > (n::nat))"
  by arith

lemma UpdateCommitIndex_majority:
  assumes "distinct (members s)" "dom (match_index s) \<subseteq> set (members s)"
    and "0 < idx" "match_value (match_index s) (self_id s) < idx"
  shows "commit_index (UpdateCommitIndex s idx) =
           (if 2 * (1 + followers_matching s idx) > length (members s) \<and> idx > commit_index s
            then idx else commit_index s)
       \<and> commit_cond_signals (UpdateCommitIndex s idx) =
           (if 2 * (1 + followers_matching s idx) > length (members s) \<and> idx > commit_index s
            then commit_cond_signals s + 1 else commit_cond_signals s)"
proof -
  obtain m c where mc: "count_match (members s) (match_index s) idx 0 = (m, c)"
    by (cases "count_match (members s) (match_index s) idx 0")
  have "dom m = set (members s)"
    using count_match_dom [of "members s" "match_index s" idx 0] mc assms(2) by auto
  then have card: "card (dom m) = length (members s)"
    using assms(1) by (simp add: distinct_card)
  have p: "(match_value (match_index s) x \<ge> idx)
           = (x \<noteq> self_id s \<and> (case match_index s x of None \<Rightarrow> False | Some v \<Rightarrow> v \<ge> idx))"
    for x
    using assms(3,4) by (auto simp: match_value_def split: option.splits)
  have c: "c = followers_matching s idx"
    using mc by (simp add: count_match_eq followers_matching_def p)
  show ?thesis
    using mc card c majority_arith [of "length (members s)" "followers_matching s idx"]
    by (simp add: UpdateCommitIndex_def Let_def)
qed

lemma ReplicateLog_reply_commit:
  assumes "commit_index (ReplicateLog_reply s f index batch_span max_term ok response)
             \<noteq> commit_index s"
  shows "ok \<and> ar_success response \<and> status s = kLeader \<and> max_term = current_term s"
  using assms
  by (auto simp: ReplicateLog_reply_def Let_def TransToFollower_def split: if_splits)

section \<open>Facts about Scan and Get\<close>

lemma scan_loop_bound:
  assumes "scan_loop s e lim it cnt pb items = Some (res, hm)" "cnt \<le> lim + 1"
  shows "int (length res) \<le> int (length items) + (lim + 1 - cnt)"
  using assms
proof (induction it arbitrary: cnt pb items)
  case Nil
  then show ?case by simp
next
  case (Cons p it)
  obtain k v where p: "p = (k, v)" by (cases p)
  show ?case
    using Cons.prems Cons.IH [of cnt pb items]
      Cons.IH [of "cnt + 1" "pb + length k + length (tl v)" "items @ [(k, tl v)]"]
    unfolding p
    by (auto simp: ParseValue_def split: if_splits option.splits list.splits)
qed

lemma read_local_absent:
  assumes "fst (Store_Get (data_store s) (GetUsernameFromUuid (user_manager s) uuid) k) \<noteq> kOk"
  shows "read_local s uuid k response =
           Some (response\<lparr>gr_hit := False, gr_success := True, gr_leader_id := ''''\<rparr>)"
  using assms by (auto simp: read_local_def split: prod.splits)

lemma scan_loop_items:
  assumes "scan_loop s e lim it cnt pb items = Some (res, hm)" "(k, v) \<in> set res"
  shows "(k, v) \<in> set items
         \<or> ((k < e \<or> e = []) \<and> k \<noteq> tag_last_applied_index
             \<and> (\<exists>c. (k, c # v) \<in> set it \<and> \<not> (c = op_char kLock \<and> IsExpiredSession s v)))"
  using assms
proof (induction it arbitrary: cnt pb items)
  case Nil
  then show ?case by simp
next
  case (Cons p it)
  obtain k' v' where p: "p = (k', v')" by (cases p)
  show ?case
  proof (cases "(k' < e \<or> e = []) \<and> \<not> cnt > lim \<and> \<not> pb > sMaxPBSize")
    case False
    with Cons.prems show ?thesis
      unfolding p by (auto split: if_splits)
  next
    case True
    show ?thesis
    proof (cases "k' = tag_last_applied_index")
      case tag: True
      with True Cons.prems have "scan_loop s e lim it cnt pb items = Some (res, hm)"
        unfolding p by simp
      from Cons.IH [OF this Cons.prems(2)] show ?thesis by auto
    next
      case notag: False
      from True notag Cons.prems(1) obtain c r where v': "v' = c # r"
        unfolding p by (cases v') (auto simp: ParseValue_def)
      show ?thesis
      proof (cases "c = op_char kLock \<and> IsExpiredSession s r")
        case True': True
        with True notag v' Cons.prems have "scan_loop s e lim it cnt pb items = Some (res, hm)"
          unfolding p by (simp add: ParseValue_def)
        from Cons.IH [OF this Cons.prems(2)] show ?thesis by auto
      next
        case False
        with True notag v' Cons.prems have
          "scan_loop s e lim it (cnt + 1) (pb + length k' + length r) (items @ [(k', r)])
             = Some (res, hm)"
          unfolding p by (auto simp: ParseValue_def)
        from Cons.IH [OF this Cons.prems(2)] True notag False v' show ?thesis
          unfolding p by auto
      qed
    qed
  qed
qed

lemma Seek_lower_bound:
  assumes "sorted (map fst d)" "p \<in> set (dropWhile (\<lambda>p. fst p < start_key) d)"
  shows "start_key \<le> fst p"
  using assms
proof (induction d)
  case Nil
  then show ?case by simp
next
  case (Cons q d)
  show ?case
  proof (cases "fst q < start_key")
    case True
    with Cons show ?thesis by simp
  next
    case False
    with Cons.prems have "p = q \<or> p \<in> set d" by simp
    with Cons.prems(1) False show ?thesis
      by (auto simp: not_less dest: order_trans)
  qed
qed

section \<open>Facts about the application store\<close>

lemma map_of_db_put: "map_of (db_put k v d) = (map_of d)(k \<mapsto> v)"
  by (induction d) (auto simp: fun_eq_iff)

lemma map_of_db_delete: "map_of (db_delete k d) = (map_of d)(k := None)"
  by (induction d) (auto simp: db_delete_def fun_eq_iff)

lemma Store_Get_stored:
  "Store_Get sm n k =
     (case stored sm n k of
        Some v \<Rightarrow> (kOk, v)
      | None \<Rightarrow> (if sm n = None then kUnknownUser else kNotFound, ''''))"
  by (simp add: Store_Get_def stored_def split: option.splits)

lemma Store_Put_open:
  assumes "sm n \<noteq> None"
  shows "fst (Store_Put sm n k v) = kOk"
    and "stored (snd (Store_Put sm n k v)) n' k' =
           (if n' = n \<and> k' = k then Some v else stored sm n' k')"
    and "(snd (Store_Put sm n k v)) n' \<noteq> None \<longleftrightarrow> sm n' \<noteq> None"
  using assms by (auto simp: Store_Put_def stored_def map_of_db_put split: option.splits)

lemma put_open_stored:
  "fst (put_open sm n k v) = kOk"
  "stored (snd (put_open sm n k v)) n' k' =
           (if n' = n \<and> k' = k then Some v else stored sm n' k')"
  "sm n' \<noteq> None \<Longrightarrow> (snd (put_open sm n k v)) n' \<noteq> None"
  "(snd (put_open sm n k v)) n \<noteq> None"
  by (auto simp: put_open_def Store_Put_def OpenDatabase_def stored_def map_of_db_put
        split: option.splits)

lemma delete_open_stored:
  "fst (delete_open sm n k) = kOk"
  "stored (snd (delete_open sm n k)) n' k' =
           (if n' = n \<and> k' = k then None else stored sm n' k')"
  "sm n' \<noteq> None \<Longrightarrow> (snd (delete_open sm n k)) n' \<noteq> None"
  "(snd (delete_open sm n k)) n \<noteq> None"
  by (auto simp: delete_open_def Store_Delete_def OpenDatabase_def stored_def map_of_db_delete
        split: option.splits)

lemma TouchParentKey_stored:
  assumes "GetParentKey k = Some p" "sm n \<noteq> None"
  shows "stored (TouchParentKey sm n k sess act) n' k' =
           (if n' = n \<and> k' = p then Some (op_char kPut # act @ '','' @ sess)
            else stored sm n' k')"
    and "(TouchParentKey sm n k sess act) n' \<noteq> None \<longleftrightarrow> sm n' \<noteq> None"
  using assms Store_Put_open(2,3) [of sm n]
  by (simp_all add: TouchParentKey_def)

lemma GetParentKey_last_slash:
  assumes "CHR ''/'' \<notin> set child"
  shows "GetParentKey (parent @ CHR ''/'' # child) = Some parent"
proof -
  have "dropWhile (\<lambda>c. c \<noteq> CHR ''/'') (rev child @ CHR ''/'' # rev parent)
          = CHR ''/'' # rev parent"
    using assms by (auto simp: dropWhile_append3)
  then show ?thesis
    by (simp add: GetParentKey_def)
qed

lemma GetParentKey_no_slash:
  "CHR ''/'' \<notin> set k \<Longrightarrow> GetParentKey k = None"
  by (simp add: GetParentKey_def)

lemma GetParentKey_shorter:
  assumes "GetParentKey k = Some p"
  shows "length p < length k"
proof -
  from assms have m: "CHR ''/'' \<in> set (rev k)"
    and p: "p = rev (tl (dropWhile (\<lambda>c. c \<noteq> CHR ''/'') (rev k)))"
    by (auto simp: GetParentKey_def split: if_splits)
  from m have "dropWhile (\<lambda>c. c \<noteq> CHR ''/'') (rev k) \<noteq> []"
    by (simp add: dropWhile_eq_Nil_conv)
  then have "length (tl (dropWhile (\<lambda>c. c \<noteq> CHR ''/'') (rev k)))
             < length (dropWhile (\<lambda>c. c \<noteq> CHR ''/'') (rev k))"
    by (cases "dropWhile (\<lambda>c. c \<noteq> CHR ''/'') (rev k)") simp_all
  also have "\<dots> \<le> length (rev k)"
    by (rule length_dropWhile_le)
  finally show ?thesis
    using p by simp
qed

lemma GetParentKey_neq: "GetParentKey k = Some p \<Longrightarrow> p \<noteq> k"
  using GetParentKey_shorter by fastforce

section \<open>Facts about the application worker\<close>

lemma apply_entry_tail:
  assumes "ReadSlot (binlogger s) i = Some (Some e)"
    and "apply_op s nop e = Some (s1, n1, st, u)"
    and "data_store s1 anonymous_user \<noteq> None"
  shows "\<exists>s' a. apply_entry s nop i = Some (s', n1, a)
           \<and> event_trigger s' = event_trigger s1
           \<and> (\<forall>n' k'. stored (data_store s') n' k' =
                 (if n' = anonymous_user \<and> k' = tag_last_applied_index
                  then Some (IntToString (last_applied_index s1 + 1))
                  else stored (data_store s1) n' k'))"
proof -
  let ?s2 = "if status s1 = kLeader \<and> n1 then s1\<lparr>in_safe_mode := False\<rparr> else s1"
  let ?s3 = "if status ?s2 = kLeader \<and> client_ack ?s2 i \<noteq> None
             then ?s2\<lparr>client_ack := (client_ack ?s2)(i := None)\<rparr> else ?s2"
  let ?s4 = "?s3\<lparr>last_applied_index := last_applied_index ?s3 + 1\<rparr>"
  have d: "data_store ?s4 = data_store s1" and l: "last_applied_index ?s4 = last_applied_index s1 + 1"
    by simp_all
  obtain sp sm where p: "Store_Put (data_store ?s4) anonymous_user tag_last_applied_index
                           (IntToString (last_applied_index ?s4)) = (sp, sm)"
    by (cases "Store_Put (data_store ?s4) anonymous_user tag_last_applied_index
                 (IntToString (last_applied_index ?s4))")
  have o: "data_store ?s4 anonymous_user \<noteq> None"
    using assms(3) d by simp
  have sp: "sp = kOk"
    using Store_Put_open(1) [where sm = "data_store ?s4" and n = anonymous_user, OF o,
        of tag_last_applied_index "IntToString (last_applied_index ?s4)"] p by simp
  have sm: "stored sm n' k' =
              (if n' = anonymous_user \<and> k' = tag_last_applied_index
               then Some (IntToString (last_applied_index s1 + 1))
               else stored (data_store s1) n' k')" for n' k'
    using Store_Put_open(2) [where sm = "data_store ?s4" and n = anonymous_user, OF o,
        of tag_last_applied_index "IntToString (last_applied_index ?s4)" n' k'] p d l by simp
  have "apply_entry s nop i =
          Some (?s4\<lparr>data_store := sm\<rparr>, n1,
                (if status ?s2 = kLeader
                 then map_option (\<lambda>A. (A, st, u)) (client_ack ?s2 i) else None))"
    using assms(1,2) p sp by (simp add: apply_entry_def Let_def)
  then show ?thesis
    using sm by auto
qed

lemma apply_op_Lock:
  assumes "e_op e = kLock"
  shows "\<exists>s1. apply_op s nop e = Some (s1, nop, kError, '''')
           \<and> data_store s1 = TouchParentKey (snd (put_open (data_store s) (e_user e) (e_key e)
                                                    (op_char kLock # e_value e)))
                                 (e_user e) (e_key e) (e_value e) ''lock''
           \<and> event_trigger s1 = event_trigger s
                 @ [(BindKeyAndUser (e_user e) (e_key e), e_value e, False)]
           \<and> last_applied_index s1 = last_applied_index s"
  using assms put_open_stored(1) [of "data_store s" "e_user e" "e_key e" "op_char kLock # e_value e"]
  by (auto simp: apply_op_def Let_def split: prod.splits)

lemma apply_op_Put:
  assumes "e_op e = kPut"
  shows "\<exists>s1. apply_op s nop e = Some (s1, nop, kError, '''')
           \<and> data_store s1 = snd (put_open (data_store s) (e_user e) (e_key e)
                                      (op_char kPut # e_value e))
           \<and> event_trigger s1 = event_trigger s
                 @ [(BindKeyAndUser (e_user e) (e_key e), e_value e, False)]
           \<and> last_applied_index s1 = last_applied_index s"
  using assms put_open_stored(1) [of "data_store s" "e_user e" "e_key e" "op_char kPut # e_value e"]
  by (auto simp: apply_op_def Let_def split: prod.splits)

lemma apply_op_Del:
  assumes "e_op e = kDel"
  shows "\<exists>s1. apply_op s nop e = Some (s1, nop, kError, '''')
           \<and> data_store s1 = snd (delete_open (data_store s) (e_user e) (e_key e))
           \<and> event_trigger s1 = event_trigger s
                 @ [(BindKeyAndUser (e_user e) (e_key e), e_value e, True)]
           \<and> last_applied_index s1 = last_applied_index s"
  using assms delete_open_stored(1) [of "data_store s" "e_user e" "e_key e"]
  by (auto simp: apply_op_def split: prod.splits)

lemma apply_op_UnLock:
  assumes "e_op e = kUnLock"
    and "stored (data_store s) (e_user e) (e_key e) = Some (op_char kLock # e_value e)"
  shows "\<exists>s1. apply_op s nop e = Some (s1, nop, kError, '''')
           \<and> data_store s1 = TouchParentKey (snd (delete_open (data_store s) (e_user e) (e_key e)))
                                 (e_user e) (e_key e) (e_value e) ''unlock''
           \<and> event_trigger s1 = event_trigger s
                 @ [(BindKeyAndUser (e_user e) (e_key e), e_value e, True)]
           \<and> last_applied_index s1 = last_applied_index s"
  using assms delete_open_stored(1) [of "data_store s" "e_user e" "e_key e"]
  by (auto simp: apply_op_def Store_Get_stored ParseValue_def split: prod.splits)

lemma apply_op_UnLock_other:
  assumes "e_op e = kUnLock"
    and "stored (data_store s) (e_user e) (e_key e) \<noteq> Some (op_char kLock # e_value e)"
    and "stored (data_store s) (e_user e) (e_key e) \<noteq> Some []"
  shows "apply_op s nop e = Some (s, nop, kError, '''')"
proof (cases "stored (data_store s) (e_user e) (e_key e)")
  case None
  then show ?thesis
    using assms(1) by (simp add: apply_op_def Store_Get_stored)
next
  case (Some v)
  with assms(3) obtain c r where "v = c # r"
    by (cases v) auto
  then show ?thesis
    using assms(1,2) Some by (auto simp: apply_op_def Store_Get_stored ParseValue_def)
qed

lemma ReadSlot_ex_apply_node:
  "ReadSlot (binlogger ex_apply_node) 0 = Some (Some ex_entry_put_child)"
  "ReadSlot (binlogger ex_apply_node) 1 = Some (Some ex_entry_lock_child)"
proof -
  have "Load (framing ex_entry_put_child) = Some ex_entry_put_child"
    by (rule Load_framing) (simp_all add: ex_entry_put_child_def)
  then show "ReadSlot (binlogger ex_apply_node) 0 = Some (Some ex_entry_put_child)"
    by (simp add: ReadSlot_def ex_apply_node_def)
  have "Load (framing ex_entry_lock_child) = Some ex_entry_lock_child"
    by (rule Load_framing) (simp_all add: ex_entry_lock_child_def)
  then show "ReadSlot (binlogger ex_apply_node) 1 = Some (Some ex_entry_lock_child)"
    by (simp add: ReadSlot_def ex_apply_node_def)
qed


section \<open>Facts about the client requests\<close>

lemma UpdateCommitIndex_fields:
  "binlogger (UpdateCommitIndex s a) = binlogger s"
  "data_store (UpdateCommitIndex s a) = data_store s"
  "status (UpdateCommitIndex s a) = status s"
  "in_safe_mode (UpdateCommitIndex s a) = in_safe_mode s"
  "user_manager (UpdateCommitIndex s a) = user_manager s"
  "sessions (UpdateCommitIndex s a) = sessions s"
  "flags (UpdateCommitIndex s a) = flags s"
  "server_start_timestamp (UpdateCommitIndex s a) = server_start_timestamp s"
  "current_term (UpdateCommitIndex s a) = current_term s"
  by (simp_all add: UpdateCommitIndex_def Let_def split: prod.splits)

lemma append_and_ack_fits:
  assumes "fits_int32 e"
  shows "\<exists>s'. append_and_ack s e kind = Some s'
           \<and> log_length (binlogger s') = log_length (binlogger s) + 1
           \<and> ReadSlot (binlogger s') (log_length (binlogger s)) = Some (Some e)
           \<and> data_store s' = data_store s \<and> status s' = status s
           \<and> in_safe_mode s' = in_safe_mode s \<and> user_manager s' = user_manager s
           \<and> sessions s' = sessions s \<and> flags s' = flags s
           \<and> server_start_timestamp s' = server_start_timestamp s
           \<and> current_term s' = current_term s"
proof -
  from assms have "Dump e \<noteq> None"
    by (simp add: fits_int32_def Dump_def Let_def)
  then obtain bl where bl: "AppendEntry (binlogger s) e = Some bl"
    by (auto simp: AppendEntry_def split: option.splits)
  note r = ReadSlot_AppendEntry_same [OF bl] and l = AppendEntry_length [OF bl]
  show ?thesis
    using bl r l by (simp add: append_and_ack_def Let_def UpdateCommitIndex_fields)
qed

lemma Get_safe_mode:
  assumes "status s = kLeader" "in_safe_mode s"
  shows "Get s now request =
           Some (GetReplied (empty_GetResponse\<lparr>gr_hit := False, gr_leader_id := '''',
                                               gr_success := False\<rparr>))"
  using assms by (simp add: Get_def)

lemma Lock_safe_mode:
  assumes "status s = kLeader" "in_safe_mode s"
  shows "\<exists>r. Lock s now request = Some (s, Some r) \<and> \<not> ak_success r \<and> ak_leader_id r = ''''"
  using assms by (simp add: Lock_def redirect_def uuid_expired_reply_def empty_AckResponse_def)

lemma Scan_safe_mode:
  assumes "status s = kLeader" "in_safe_mode s"
  shows "\<exists>r. Scan s now request = Some r \<and> \<not> sr_success r \<and> sr_leader_id r = ''''"
  using assms by (simp add: Scan_def empty_ScanResponse_def)

lemma Put_appends:
  assumes "status s = kLeader"
    "pq_uuid request = [] \<or> IsLoggedIn (user_manager s) (pq_uuid request)"
    "\<not> (0 \<le> max_write_pending (flags s)
        \<and> int (card (dom (client_ack s))) > max_write_pending (flags s))"
    "fits_int32 \<lparr>e_op = kPut, e_user = GetUsernameFromUuid (user_manager s) (pq_uuid request),
                 e_key = pq_key request, e_value = pq_value request, e_term = current_term s\<rparr>"
  shows "\<exists>s'. Put s request = Some (s', None)
           \<and> log_length (binlogger s') = log_length (binlogger s) + 1
           \<and> ReadSlot (binlogger s') (log_length (binlogger s)) =
               Some (Some \<lparr>e_op = kPut,
                           e_user = GetUsernameFromUuid (user_manager s) (pq_uuid request),
                           e_key = pq_key request, e_value = pq_value request,
                           e_term = current_term s\<rparr>)"
  using assms(1,2,3) append_and_ack_fits [OF assms(4), of s PutAck]
  by (auto simp: Put_def)

lemma Delete_appends:
  assumes "status s = kLeader"
    "dq_uuid request = [] \<or> IsLoggedIn (user_manager s) (dq_uuid request)"
    "fits_int32 \<lparr>e_op = kDel, e_user = GetUsernameFromUuid (user_manager s) (dq_uuid request),
                 e_key = dq_key request, e_value = '''', e_term = current_term s\<rparr>"
  shows "\<exists>s'. Delete s request = Some (s', None)
           \<and> log_length (binlogger s') = log_length (binlogger s) + 1
           \<and> ReadSlot (binlogger s') (log_length (binlogger s)) =
               Some (Some \<lparr>e_op = kDel,
                           e_user = GetUsernameFromUuid (user_manager s) (dq_uuid request),
                           e_key = dq_key request, e_value = '''', e_term = current_term s\<rparr>)"
  using assms(1,2) append_and_ack_fits [OF assms(3), of s DelAck]
  by (auto simp: Delete_def)

lemma UnLock_appends:
  assumes "status s = kLeader"
    "lq_uuid request = [] \<or> IsLoggedIn (user_manager s) (lq_uuid request)"
    "fits_int32 \<lparr>e_op = kUnLock, e_user = GetUsernameFromUuid (user_manager s) (lq_uuid request),
                 e_key = lq_key request, e_value = lq_session_id request,
                 e_term = current_term s\<rparr>"
  shows "\<exists>s'. UnLock s request = Some (s', None)
           \<and> log_length (binlogger s') = log_length (binlogger s) + 1
           \<and> ReadSlot (binlogger s') (log_length (binlogger s)) =
               Some (Some \<lparr>e_op = kUnLock,
                           e_user = GetUsernameFromUuid (user_manager s) (lq_uuid request),
                           e_key = lq_key request, e_value = lq_session_id request,
                           e_term = current_term s\<rparr>)"
  using assms(1,2) append_and_ack_fits [OF assms(3), of s UnLockAck]
  by (auto simp: UnLock_def)

lemma watch_reread_ignores_safe_mode:
  "watch_reread (s\<lparr>in_safe_mode := b\<rparr>) op0 request user bindedkey
     = watch_reread s op0 request user bindedkey"
proof -
  have 1: "data_store (s\<lparr>in_safe_mode := b\<rparr>) = data_store s"
    and 2: "watch_events (s\<lparr>in_safe_mode := b\<rparr>) = watch_events s"
    by simp_all
  have 3: "IsExpiredSession (s\<lparr>in_safe_mode := b\<rparr>) = IsExpiredSession s"
    by (simp add: fun_eq_iff IsExpiredSession_def)
  show ?thesis
    unfolding watch_reread_def 1 2 3 by (rule refl)
qed

lemma Watch_ignores_safe_mode:
  "Watch (s\<lparr>in_safe_mode := b\<rparr>) now op0 request =
     map_option (\<lambda>(s', r, c). (s'\<lparr>in_safe_mode := b\<rparr>, r, c)) (Watch s now op0 request)"
proof -
  obtain evs1 canceled where r:
    "RemoveEventBySessionAndKey (watch_events s) (wq_session_id request)
       (BindKeyAndUser (GetUsernameFromUuid (user_manager s) (wq_uuid request)) (wq_key request))
     = (evs1, canceled)"
    by (cases "RemoveEventBySessionAndKey (watch_events s) (wq_session_id request)
       (BindKeyAndUser (GetUsernameFromUuid (user_manager s) (wq_uuid request)) (wq_key request))")
  let ?s1 = "s\<lparr>watch_events := evs1 @ [\<lparr>we_key = BindKeyAndUser
                    (GetUsernameFromUuid (user_manager s) (wq_uuid request)) (wq_key request),
                  we_session_id = wq_session_id request\<rparr>]\<rparr>"
  have w: "watch_reread (?s1\<lparr>in_safe_mode := b\<rparr>) op0 request u k
             = watch_reread ?s1 op0 request u k"
    for u k
    by (rule watch_reread_ignores_safe_mode)
  have e: "s\<lparr>in_safe_mode := b, watch_events := x\<rparr> = s\<lparr>watch_events := x, in_safe_mode := b\<rparr>"
    for x
    by simp
  show ?thesis
    unfolding Watch_def
    by (simp add: r Let_def w e option.map_comp comp_def split_def
          del: InsNode.update_convs cong: if_cong)
qed

lemma GetKeyFromEvent_bound: "GetKeyFromEvent (BindKeyAndUser u k) \<noteq> None"
proof -
  have "length (takeWhile (\<lambda>c. c \<noteq> CHR '':'') (u @ ''::'' @ k)) \<le> length u"
    by (induction u) simp_all
  then show ?thesis
    by (simp add: GetKeyFromEvent_def BindKeyAndUser_def Let_def)
qed

lemma Trigger_registered:
  assumes "GetKeyFromEvent bk = Some kk"
    and "\<forall>e \<in> set evs. \<not> (we_session_id e = sid \<and> we_key e = bk)"
  shows "TriggerEventBySessionAndKey (evs @ [\<lparr>we_key = bk, we_session_id = sid\<rparr>]) sid bk v d =
           Some (evs, [empty_WatchResponse\<lparr>wr_watch_key := kk, wr_key := kk, wr_value := v,
                          wr_deleted := d, wr_success := True, wr_leader_id := ''''\<rparr>])"
proof -
  from assms(2) have f: "filter (\<lambda>e. we_session_id e = sid \<and> we_key e = bk) evs = []"
    and g: "filter (\<lambda>e. we_session_id e = sid \<longrightarrow> we_key e \<noteq> bk) evs = evs"
    by (auto simp: filter_empty_conv filter_id_conv)
  show ?thesis
    by (simp add: TriggerEventBySessionAndKey_def assms(1) f g)
qed

lemma watch_reread_changed:
  assumes "watch_events s1 = evs @ [\<lparr>we_key = bk, we_session_id = wq_session_id wq\<rparr>]"
    and "\<forall>e \<in> set evs. \<not> (we_session_id e = wq_session_id wq \<and> we_key e = bk)"
    and "GetKeyFromEvent bk = Some kk"
    and "data_store s1 = data_store s" "sessions s1 = sessions s"
    and "user = GetUsernameFromUuid (user_manager s) (wq_uuid wq)"
  shows "if watch_changed s op0 wq
         then \<exists>r. watch_reread s1 op0 wq user bk = Some (evs, [r])
                \<and> wr_success r \<and> wr_leader_id r = '''' \<and> wr_key r = kk
         else watch_reread s1 op0 wq user bk =
                Some (evs @ [\<lparr>we_key = bk, we_session_id = wq_session_id wq\<rparr>], [])"
proof -
  note t = Trigger_registered [OF assms(3) assms(2)]
  show ?thesis
  proof (cases "stored (data_store s) user (wq_key wq)")
    case None
    then show ?thesis
      using assms(1,4,5,6) t
      by (auto simp: watch_reread_def watch_changed_def Store_Get_stored ParseValue_def
            IsExpiredSession_def Let_def empty_WatchResponse_def)
  next
    case (Some v)
    then show ?thesis
      using assms(1,4,5,6) t
      by (cases v) (auto simp: watch_reread_def watch_changed_def Store_Get_stored ParseValue_def
            IsExpiredSession_def Let_def empty_WatchResponse_def)
  qed
qed

lemma Watch_leader:
  assumes "status s = kLeader"
    and "wq_uuid wq = [] \<or> IsLoggedIn (user_manager s) (wq_uuid wq)"
    and "bk = BindKeyAndUser (GetUsernameFromUuid (user_manager s) (wq_uuid wq)) (wq_key wq)"
  shows "\<exists>s' rs. Watch s now op0 wq =
             Some (s', None, snd (RemoveEventBySessionAndKey (watch_events s)
                                    (wq_session_id wq) bk) @ rs)
           \<and> (if now - server_start_timestamp s > session_expire_timeout (flags s)
                  \<and> watch_changed s op0 wq
               then (\<exists>r. rs = [r] \<and> wr_success r \<and> wr_leader_id r = '''')
                    \<and> \<lparr>we_key = bk, we_session_id = wq_session_id wq\<rparr> \<notin> set (watch_events s')
               else rs = []
                    \<and> \<lparr>we_key = bk, we_session_id = wq_session_id wq\<rparr> \<in> set (watch_events s'))"
proof -
  let ?user = "GetUsernameFromUuid (user_manager s) (wq_uuid wq)"
  let ?ev = "\<lparr>we_key = bk, we_session_id = wq_session_id wq\<rparr>"
  obtain evs1 canceled where r:
    "RemoveEventBySessionAndKey (watch_events s) (wq_session_id wq) bk = (evs1, canceled)"
    by (cases "RemoveEventBySessionAndKey (watch_events s) (wq_session_id wq) bk")
  then have evs1: "\<forall>e \<in> set evs1. \<not> (we_session_id e = wq_session_id wq \<and> we_key e = bk)"
    by (auto simp: RemoveEventBySessionAndKey_def)
  then have notin: "?ev \<notin> set evs1"
    by auto
  obtain kk where kk: "GetKeyFromEvent bk = Some kk"
    using GetKeyFromEvent_bound [of ?user "wq_key wq"] assms(3) by auto
  let ?s1 = "s\<lparr>watch_events := evs1 @ [?ev]\<rparr>"
  note rr = watch_reread_changed [where ?s1.0 = ?s1 and s = s and evs = evs1 and bk = bk
      and wq = wq and kk = kk and user = ?user and ?op0.0 = op0, OF _ evs1 kk]
  have w: "Watch s now op0 wq =
             (if now - server_start_timestamp s > session_expire_timeout (flags s)
              then map_option (\<lambda>(evs2, fired). (?s1\<lparr>watch_events := evs2\<rparr>, None, canceled @ fired))
                     (watch_reread ?s1 op0 wq ?user bk)
              else Some (?s1, None, canceled))"
    using assms r by (auto simp: Watch_def Let_def)
  show ?thesis
  proof (cases "now - server_start_timestamp s > session_expire_timeout (flags s)
                  \<and> watch_changed s op0 wq")
    case True
    then obtain r0 where "watch_reread ?s1 op0 wq ?user bk = Some (evs1, [r0])"
      and "wr_success r0" "wr_leader_id r0 = ''''"
      using rr by auto
    then show ?thesis
      using True w r notin by simp
  next
    case False
    show ?thesis
    proof (cases "now - server_start_timestamp s > session_expire_timeout (flags s)")
      case True
      with False have "watch_reread ?s1 op0 wq ?user bk = Some (evs1 @ [?ev], [])"
        using rr by simp
      then show ?thesis
        using False True w r by simp
    next
      case False
      then show ?thesis
        using w r by simp
    qed
  qed
qed

lemma LockIsAvailable_grantable:
  assumes "stored (data_store s) user k \<noteq> Some []"
  shows "LockIsAvailable s user k sid = Some (lock_grantable s user k sid)"
proof (cases "stored (data_store s) user k")
  case None
  then show ?thesis
    by (simp add: LockIsAvailable_def Store_Get_stored lock_grantable_def)
next
  case (Some v)
  with assms obtain c owner where v: "v = c # owner"
    by (cases v) auto
  show ?thesis
    using Some v
    by (auto simp: LockIsAvailable_def Store_Get_stored lock_grantable_def ParseValue_def)
qed

lemma Lock_decision:
  assumes "status s = kLeader" "\<not> in_safe_mode s"
    and "lq_uuid request = [] \<or> IsLoggedIn (user_manager s) (lq_uuid request)"
    and "\<not> now - server_start_timestamp s < session_expire_timeout (flags s)"
    and "user = GetUsernameFromUuid (user_manager s) (lq_uuid request)"
    and "data_store s user \<noteq> None"
    and "stored (data_store s) user (lq_key request) \<noteq> Some []"
    and "fits_int32 \<lparr>e_op = kLock, e_user = user, e_key = lq_key request,
                      e_value = lq_session_id request, e_term = current_term s\<rparr>"
  shows "lock_grantable s user (lq_key request) (lq_session_id request) \<Longrightarrow>
           \<exists>s'. Lock s now request = Some (s', None)
             \<and> log_length (binlogger s') = log_length (binlogger s) + 1
             \<and> ReadSlot (binlogger s') (log_length (binlogger s)) =
                 Some (Some \<lparr>e_op = kLock, e_user = user, e_key = lq_key request,
                             e_value = lq_session_id request, e_term = current_term s\<rparr>)
             \<and> stored (data_store s') user (lq_key request)
                 = Some (op_char kLock # lq_session_id request)
             \<and> data_store s' user \<noteq> None
             \<and> status s' = status s \<and> in_safe_mode s' = in_safe_mode s
             \<and> user_manager s' = user_manager s \<and> sessions s' = sessions s
             \<and> flags s' = flags s \<and> server_start_timestamp s' = server_start_timestamp s
             \<and> current_term s' = current_term s"
    and "\<not> lock_grantable s user (lq_key request) (lq_session_id request) \<Longrightarrow>
           Lock s now request = Some (s, Some (redirect ''''))"
proof -
  note av = LockIsAvailable_grantable [OF assms(7), of "lq_session_id request"]
  let ?e = "\<lparr>e_op = kLock, e_user = user, e_key = lq_key request,
             e_value = lq_session_id request, e_term = current_term s\<rparr>"
  let ?v = "op_char kLock # lq_session_id request"
  obtain st sm where p: "Store_Put (data_store s) user (lq_key request) ?v = (st, sm)"
    by (cases "Store_Put (data_store s) user (lq_key request) ?v")
  have st: "st = kOk"
    using Store_Put_open(1) [where sm = "data_store s" and n = user, OF assms(6),
        of "lq_key request" ?v] p by simp
  have sm: "stored sm user (lq_key request) = Some ?v" "sm user \<noteq> None"
    using Store_Put_open(2,3) [where sm = "data_store s" and n = user, OF assms(6),
        of "lq_key request" ?v user] p assms(6) by simp_all
  have e: "?e = \<lparr>e_op = kLock, e_user = user, e_key = lq_key request,
                  e_value = lq_session_id request,
                  e_term = current_term (s\<lparr>data_store := sm\<rparr>)\<rparr>"
    by simp
  from append_and_ack_fits [OF assms(8), of "s\<lparr>data_store := sm\<rparr>" LockAck]
  obtain s' where a: "append_and_ack (s\<lparr>data_store := sm\<rparr>) ?e LockAck = Some s'"
    and props: "log_length (binlogger s') = log_length (binlogger s) + 1"
      "ReadSlot (binlogger s') (log_length (binlogger s)) = Some (Some ?e)"
      "data_store s' = sm" "status s' = status s" "in_safe_mode s' = in_safe_mode s"
      "user_manager s' = user_manager s" "sessions s' = sessions s" "flags s' = flags s"
      "server_start_timestamp s' = server_start_timestamp s" "current_term s' = current_term s"
    by auto
  show "\<exists>s'. Lock s now request = Some (s', None)
             \<and> log_length (binlogger s') = log_length (binlogger s) + 1
             \<and> ReadSlot (binlogger s') (log_length (binlogger s)) = Some (Some ?e)
             \<and> stored (data_store s') user (lq_key request) = Some ?v
             \<and> data_store s' user \<noteq> None
             \<and> status s' = status s \<and> in_safe_mode s' = in_safe_mode s
             \<and> user_manager s' = user_manager s \<and> sessions s' = sessions s
             \<and> flags s' = flags s \<and> server_start_timestamp s' = server_start_timestamp s
             \<and> current_term s' = current_term s"
    if "lock_grantable s user (lq_key request) (lq_session_id request)"
  proof -
    have "Lock s now request = Some (s', None)"
      using assms(1-5) av that p st a by (auto simp: Lock_def Let_def)
    then show ?thesis
      using props sm by simp
  qed
  show "Lock s now request = Some (s, Some (redirect ''''))"
    if "\<not> lock_grantable s user (lq_key request) (lq_session_id request)"
    using assms(1-5) av that by (auto simp: Lock_def Let_def)
qed

section \<open>The claims\<close>

text \<open>
  C9, as stated: for every log entry, \<^verbatim>\<open>Dump\<close> produces the framing and returns
  \<open>21 + |user| + |key| + |value|\<close>. The length is an \<^verbatim>\<open>int32_t\<close>: for an entry of
  \<open>2 ^ 31\<close> framed bytes \<^verbatim>\<open>Dump\<close> does not return that length.
\<close>

theorem C9_dump_every_entry_counterexample:
  "Dump ex_entry_huge \<noteq>
     Some (framing ex_entry_huge,
           21 + int (length (e_user ex_entry_huge)) + int (length (e_key ex_entry_huge))
              + int (length (e_value ex_entry_huge)))"
  by (simp add: Dump_def ex_entry_huge_def)

text \<open>
  C9, amended: for every log entry whose framed size \<open>21 + |user| + |key| + |value|\<close> is
  below \<open>2 ^ 31\<close>, \<^verbatim>\<open>Dump\<close> returns exactly the buffer
  op(1) | user_len(4) | user | key_len(4) | key | value_len(4) | value | term(8), of that
  size, returns that size, and \<^verbatim>\<open>Load\<close> of the buffer gives the entry back.
\<close>

theorem C9_dump_load_roundtrip:
  assumes "21 + length (e_user e) + length (e_key e) + length (e_value e) < 2 ^ 31"
  shows "\<exists>buf. Dump e = Some (buf, 21 + int (length (e_user e)) + int (length (e_key e))
                                     + int (length (e_value e)))
           \<and> buf = [op_char (e_op e)]
                   @ le_bytes 4 (length (e_user e)) @ e_user e
                   @ le_bytes 4 (length (e_key e)) @ e_key e
                   @ le_bytes 4 (length (e_value e)) @ e_value e
                   @ le_bytes 8 (unat (e_term e))
           \<and> length (le_bytes 4 (length (e_user e))) = 4
           \<and> length (le_bytes 4 (length (e_key e))) = 4
           \<and> length (le_bytes 4 (length (e_value e))) = 4
           \<and> length (le_bytes 8 (unat (e_term e))) = 8
           \<and> length buf = 21 + length (e_user e) + length (e_key e) + length (e_value e)
           \<and> Load buf = Some e"
proof -
  have "Load (framing e) = Some e"
    using assms by (intro Load_framing) simp_all
  moreover have "framing e = [op_char (e_op e)]
                   @ le_bytes 4 (length (e_user e)) @ e_user e
                   @ le_bytes 4 (length (e_key e)) @ e_key e
                   @ le_bytes 4 (length (e_value e)) @ e_value e
                   @ le_bytes 8 (unat (e_term e))"
    by (simp add: framing_def)
  ultimately show ?thesis
    using Dump_Some [OF assms] framing_length [of e] by (simp add: le_bytes_length)
qed

theorem C9_dump_load_roundtrip_witness:
  "\<exists>buf. Dump ex_entry_a = Some (buf, 23) \<and> length buf = 23 \<and> Load buf = Some ex_entry_a"
  using C9_dump_load_roundtrip [of ex_entry_a] by (simp add: ex_entry_a_def)

text \<open>
  C4, as stated: after \<^verbatim>\<open>Truncate(last_kept_index)\<close> a read of any slot above
  \<open>last_kept_index\<close> returns not-found. On the log of two entries truncated to its
  first, slot 1 still reads as the second entry.
\<close>

theorem C4_truncated_tail_counterexample:
  "Truncate ex_log 0 = Some ex_log_truncated
   \<and> ReadSlot ex_log_truncated 1 = Some (Some ex_entry_b)"
proof -
  have "e_term ex_entry_a = 1"
    by (simp add: ex_entry_a_def)
  then have "Truncate ex_log 0 = Some ex_log_truncated"
    by (simp add: Truncate_def ReadSlot_def ex_log_def ex_log_truncated_def Let_def
          Load_ex_entry_a)
  moreover have "ReadSlot ex_log_truncated 1 = Some (Some ex_entry_b)"
    by (simp add: ReadSlot_def ex_log_truncated_def Load_ex_entry_b)
  ultimately show ?thesis ..
qed

text \<open>
  C4, amended: after \<^verbatim>\<open>Truncate(last_kept_index)\<close> with \<open>last_kept_index \<ge> -1\<close> and
  a readable last kept slot, the log length equals \<open>last_kept_index + 1\<close>, and a
  subsequent append (of an entry whose framed size is below \<open>2 ^ 31\<close>) is written at
  the new length, where it is read back. \<^verbatim>\<open>ReadSlot\<close> does not consult the length:
  every slot reads as it did before the truncation, so a truncated slot that had been
  written is still returned, until an append overwrites it; the append changes the
  reading of that one slot only.
\<close>

theorem C4_truncate_then_append:
  assumes "- 1 \<le> k" "k = - 1 \<or> (\<exists>e. ReadSlot bl k = Some (Some e))"
  shows "\<exists>bl'. Truncate bl k = Some bl'
           \<and> log_length bl' = k + 1
           \<and> GetLength bl' = k + 1
           \<and> (\<forall>i. ReadSlot bl' i = ReadSlot bl i)
           \<and> (\<forall>e. fits_int32 e \<longrightarrow> (\<exists>bl''. AppendEntry bl' e = Some bl''))
           \<and> (\<forall>e bl''. AppendEntry bl' e = Some bl'' \<longrightarrow>
                  ReadSlot bl'' (k + 1) = Some (Some e) \<and> log_length bl'' = k + 2
                  \<and> (\<forall>i. i \<noteq> k + 1 \<longrightarrow> ReadSlot bl'' i = ReadSlot bl i))"
proof -
  from Truncate_Some [OF assms] obtain t where
    t: "Truncate bl k = Some (bl\<lparr>log_length := k + 1, length_tag := Some (k + 1),
                                 last_log_term := t\<rparr>)" ..
  let ?bl' = "bl\<lparr>log_length := k + 1, length_tag := Some (k + 1), last_log_term := t\<rparr>"
  have r: "ReadSlot ?bl' i = ReadSlot bl i" for i
    by (simp add: ReadSlot_def)
  have f: "\<exists>bl''. AppendEntry ?bl' e = Some bl''" if "fits_int32 e" for e
    using that by (simp add: AppendEntry_def Dump_def fits_int32_def Let_def)
  have a: "ReadSlot bl'' (k + 1) = Some (Some e) \<and> log_length bl'' = k + 2
           \<and> (\<forall>i. i \<noteq> k + 1 \<longrightarrow> ReadSlot bl'' i = ReadSlot bl i)"
    if "AppendEntry ?bl' e = Some bl''" for e bl''
    using ReadSlot_AppendEntry_same [OF that] ReadSlot_AppendEntry_other [OF that]
      AppendEntry_length [OF that] r by simp
  show ?thesis
    using t r a f by (simp add: GetLength_def)
qed

theorem C4_truncate_then_append_witness:
  "\<exists>bl' bl''. Truncate ex_log 0 = Some bl' \<and> log_length bl' = 1
       \<and> ReadSlot bl' 1 = ReadSlot ex_log 1
       \<and> AppendEntry bl' ex_entry_a = Some bl''
       \<and> ReadSlot bl'' 1 = Some (Some ex_entry_a) \<and> log_length bl'' = 2"
proof -
  have h1: "- 1 \<le> (0::int)" by simp
  have h2: "(0::int) = - 1 \<or> (\<exists>e. ReadSlot ex_log 0 = Some (Some e))"
    by (simp add: ReadSlot_def ex_log_def Load_ex_entry_a)
  from C4_truncate_then_append [OF h1 h2] obtain bl' where
    t: "Truncate ex_log 0 = Some bl'" and l: "log_length bl' = 0 + 1"
    and r: "\<forall>i. ReadSlot bl' i = ReadSlot ex_log i"
    and f: "\<forall>e. fits_int32 e \<longrightarrow> (\<exists>bl''. AppendEntry bl' e = Some bl'')"
    and a: "\<forall>e bl''. AppendEntry bl' e = Some bl'' \<longrightarrow>
              ReadSlot bl'' (0 + 1) = Some (Some e) \<and> log_length bl'' = 0 + 2
              \<and> (\<forall>i. i \<noteq> 0 + 1 \<longrightarrow> ReadSlot bl'' i = ReadSlot ex_log i)"
    by blast
  have "fits_int32 ex_entry_a"
    by (simp add: fits_int32_def ex_entry_a_def)
  with f obtain bl'' where b: "AppendEntry bl' ex_entry_a = Some bl''"
    by blast
  from a b have "ReadSlot bl'' 1 = Some (Some ex_entry_a) \<and> log_length bl'' = 2"
    by fastforce
  with t l r b show ?thesis
    by auto
qed

text \<open>
  C1: the commit index and the last applied index never decrease. The worker and
  \<^verbatim>\<open>UpdateCommitIndex\<close> keep this (lemmas \<open>apply_entry_indices\<close>,
  \<open>CommitIndexObserv_indices\<close>, \<open>UpdateCommitIndex_commit_index_mono\<close>), and the
  follower's handler never touches the last applied index
  (\<open>DoAppendEntries_last_applied\<close>). But the handler assigns
  \<open>min (last log index) (leader_commit_index)\<close> without comparing it with the old
  value: a follower with commit index 1 that receives a heartbeat of its term with
  \<open>leader_commit_index = 0\<close> answers with success and has commit index 0.
\<close>

theorem C1_heartbeat_lowers_commit_index:
  "commit_index ex_node = 1
   \<and> DoAppendEntries ex_node ex_heartbeat =
       Some (ex_node\<lparr>current_leader := ''B'', heartbeat_count := 1, commit_index := 0\<rparr>,
             \<lparr>ar_current_term = 1, ar_success = True, ar_log_length = 2, ar_is_busy = False\<rparr>)"
  by (simp add: DoAppendEntries_def ex_node_def ex_heartbeat_def Let_def GetLastLogIndex_def
        GetLength_def ex_log_def)

text \<open>
  C2, as stated: \<^verbatim>\<open>UpdateCommitIndex(idx)\<close> leaves the commit index unchanged
  unless the entry at \<open>idx\<close> is of the current term. On the leader of term 2 whose two
  followers have match index 1 and whose entry 1 is of term 1,
  \<^verbatim>\<open>UpdateCommitIndex(1)\<close> raises the commit index from 0 to 1 and signals.
\<close>

theorem C2_term_not_checked_counterexample:
  "commit_index ex_leader = 0
   \<and> commit_index (UpdateCommitIndex ex_leader 1) = 1
   \<and> commit_cond_signals (UpdateCommitIndex ex_leader 1) = commit_cond_signals ex_leader + 1
   \<and> ReadSlot (binlogger ex_leader) 1 = Some (Some ex_entry_b)
   \<and> e_term ex_entry_b \<noteq> current_term ex_leader"
  by (simp add: UpdateCommitIndex_def ex_leader_def ex_node_def Let_def ReadSlot_def ex_log_def
       Load_ex_entry_b) (simp add: ex_entry_b_def)

text \<open>
  C2, amended: on a leader whose own \<^verbatim>\<open>match_index_\<close> entry is below \<open>idx\<close> (it is
  never written, and reads as 0) and for \<open>idx > 0\<close>, \<^verbatim>\<open>UpdateCommitIndex(idx)\<close> sets
  the commit index to \<open>idx\<close> and signals the application worker if and only if strictly
  more than N/2 of the cluster members, counting the leader itself and the followers
  with match index \<open>\<ge> idx\<close>, hold the entry, and \<open>idx\<close> is above the commit index;
  otherwise the commit index is unchanged. It does not read the log: the term condition
  is the caller's, and \<^verbatim>\<open>ReplicateLog\<close> changes the commit index only after a
  successful reply on a batch whose largest term is the current term.
\<close>

theorem C2_update_commit_index:
  assumes "distinct (members s)" "dom (match_index s) \<subseteq> set (members s)"
    and "0 < idx" "match_value (match_index s) (self_id s) < idx"
  shows "commit_index (UpdateCommitIndex s idx) =
           (if 2 * (1 + followers_matching s idx) > length (members s) \<and> idx > commit_index s
            then idx else commit_index s)
       \<and> commit_cond_signals (UpdateCommitIndex s idx) =
           (if 2 * (1 + followers_matching s idx) > length (members s) \<and> idx > commit_index s
            then commit_cond_signals s + 1 else commit_cond_signals s)
       \<and> binlogger (UpdateCommitIndex s idx) = binlogger s
       \<and> (\<forall>f index batch_span max_term ok response.
            commit_index (ReplicateLog_reply s f index batch_span max_term ok response)
              \<noteq> commit_index s
            \<longrightarrow> ok \<and> ar_success response \<and> max_term = current_term s)"
proof -
  have "binlogger (UpdateCommitIndex s idx) = binlogger s"
    by (simp add: UpdateCommitIndex_def Let_def split: prod.splits)
  then show ?thesis
    using UpdateCommitIndex_majority [OF assms] ReplicateLog_reply_commit [of s] by blast
qed

theorem C2_update_commit_index_witness:
  "distinct (members ex_leader1) \<and> followers_matching ex_leader1 1 = 2
   \<and> commit_index ex_leader1 = 0 \<and> commit_index (UpdateCommitIndex ex_leader1 1) = 1
   \<and> commit_cond_signals (UpdateCommitIndex ex_leader1 1) = 1
   \<and> commit_index (ReplicateLog_reply ex_leader1 ''B'' 1 1 1 True ex_append_reply) = 1
   \<and> ar_success ex_append_reply \<and> current_term ex_leader1 = 1"
proof -
  have 1: "distinct (members ex_leader1)"
    by (simp add: ex_leader1_def ex_leader_def ex_node_def)
  have 2: "dom (match_index ex_leader1) \<subseteq> set (members ex_leader1)"
    by (simp add: ex_leader1_def ex_leader_def ex_node_def)
  have 3: "0 < (1::int)" by simp
  have 4: "match_value (match_index ex_leader1) (self_id ex_leader1) < 1"
    by (simp add: ex_leader1_def ex_leader_def ex_node_def match_value_def)
  have 5: "followers_matching ex_leader1 1 = 2"
    by (simp add: ex_leader1_def ex_leader_def ex_node_def followers_matching_def)
  have 6: "commit_index (ReplicateLog_reply ex_leader1 ''B'' 1 1 1 True ex_append_reply) = 1"
    by (simp add: ReplicateLog_reply_def UpdateCommitIndex_def ex_append_reply_def
          ex_leader1_def ex_leader_def ex_node_def Let_def)
  have 7: "commit_index ex_leader1 = 0" "current_term ex_leader1 = 1"
    "ar_success ex_append_reply" "length (members ex_leader1) = 3"
    "commit_cond_signals ex_leader1 = 0"
    by (simp_all add: ex_leader1_def ex_leader_def ex_node_def ex_append_reply_def)
  show ?thesis
    using C2_update_commit_index [OF 1 2 3 4] 1 5 6 7 by simp
qed

text \<open>
  C3, as stated: whenever the request's term is above the node's, the node first steps
  down and adopts the term, and only then evaluates the grant conditions. A leader of
  term 1 that receives a request of term 2 from a candidate whose log is behind rejects
  it and stays leader of term 1.
\<close>

theorem C3_vote_step_down_counterexample:
  "sint (vq_term ex_vote_stale) > sint (current_term ex_leader1)
   \<and> status ex_leader1 = kLeader
   \<and> Vote ex_leader1 ex_vote_stale = (ex_leader1, \<lparr>vote_granted = False, vr_term = 1\<rparr>)"
  by (simp add: Vote_def ex_leader1_def ex_leader_def ex_node_def ex_vote_stale_def
        GetLastLogIndexAndTerm_def ex_log_def Let_def)

text \<open>
  C3, amended: a node grants the vote if and only if the request's term is not below
  its own, the candidate's log is at least as up to date, and the node has no vote
  recorded for the request's term or has voted for this same candidate. The log is
  compared first: when the candidate's log is behind, the node rejects and keeps its
  term and status, also for a higher term. When the log is up to date and the
  request's term is higher, the node steps down to follower, adopts and persists the
  term, and only then consults its vote record.
\<close>

theorem C3_vote_grant:
  "(vote_granted (snd (Vote s r)) \<longleftrightarrow>
      sint (vq_term r) \<ge> sint (current_term s) \<and> log_up_to_date s r
      \<and> (voted_for s (vq_term r) = None \<or> voted_for s (vq_term r) = Some (vq_candidate_id r)))
   \<and> (sint (vq_term r) > sint (current_term s) \<and> log_up_to_date s r \<longrightarrow>
        status (fst (Vote s r)) = kFollower \<and> current_term (fst (Vote s r)) = vq_term r
        \<and> term_file (meta (fst (Vote s r))) = term_file (meta s) @ [vq_term r]
        \<and> vr_term (snd (Vote s r)) = vq_term r)
   \<and> (\<not> log_up_to_date s r \<longrightarrow>
        Vote s r = (s, \<lparr>vote_granted = False, vr_term = current_term s\<rparr>))"
proof -
  have a: "vote_granted (snd (Vote s r)) \<longleftrightarrow>
      sint (vq_term r) \<ge> sint (current_term s) \<and> log_up_to_date s r
      \<and> (voted_for s (vq_term r) = None \<or> voted_for s (vq_term r) = Some (vq_candidate_id r))"
  proof (cases "log_up_to_date s r \<and> sint (vq_term r) \<ge> sint (current_term s)")
    case True
    then show ?thesis
      using Vote_fresh [of s r] by (auto simp: Let_def split: option.splits)
  next
    case False
    then show ?thesis
      using Vote_stale [of s r] Vote_old_term [of r s] by (cases "log_up_to_date s r") auto
  qed
  have b: "status (fst (Vote s r)) = kFollower \<and> current_term (fst (Vote s r)) = vq_term r
        \<and> term_file (meta (fst (Vote s r))) = term_file (meta s) @ [vq_term r]
        \<and> vr_term (snd (Vote s r)) = vq_term r"
    if "sint (vq_term r) > sint (current_term s) \<and> log_up_to_date s r"
    using that Vote_fresh [of s r]
    by (auto simp: Let_def TransToFollower_def WriteCurrentTerm_def WriteVotedFor_def
          split: option.splits)
  have c: "Vote s r = (s, \<lparr>vote_granted = False, vr_term = current_term s\<rparr>)"
    if "\<not> log_up_to_date s r"
    using that by (rule Vote_stale)
  show ?thesis
    using a b c by blast
qed

theorem C3_vote_grant_witness:
  "vote_granted (snd (Vote ex_node ex_vote_fresh))
   \<and> status (fst (Vote ex_node ex_vote_fresh)) = kFollower
   \<and> current_term (fst (Vote ex_node ex_vote_fresh)) = 2
   \<and> Vote ex_leader1 ex_vote_stale = (ex_leader1, \<lparr>vote_granted = False, vr_term = 1\<rparr>)"
proof -
  have f: "log_up_to_date ex_node ex_vote_fresh"
    by (simp add: log_up_to_date_def ex_node_def ex_vote_fresh_def ex_log_def)
  have g: "sint (vq_term ex_vote_fresh) > sint (current_term ex_node)"
    by (simp add: ex_node_def ex_vote_fresh_def)
  have v: "voted_for ex_node (vq_term ex_vote_fresh) = None"
    by (simp add: ex_node_def)
  have n: "\<not> log_up_to_date ex_leader1 ex_vote_stale"
    by (simp add: log_up_to_date_def ex_leader1_def ex_leader_def ex_node_def ex_vote_stale_def
          ex_log_def)
  have c: "current_term ex_leader1 = 1"
    by (simp add: ex_leader1_def)
  show ?thesis
    using C3_vote_grant [of ex_node ex_vote_fresh] C3_vote_grant [of ex_leader1 ex_vote_stale]
      f g v n c by (simp add: ex_vote_fresh_def)
qed

text \<open>
  C7: Scan returns at most \<open>size_limit\<close> items. The loop stops on
  \<^verbatim>\<open>count > size_limit\<close>, tested before an item is added, so it adds up to
  \<open>size_limit + 1\<close> items (lemma \<open>scan_loop_bound\<close>): with \<open>size_limit = 1\<close> and two
  plain values in the namespace the response carries both, and \<^verbatim>\<open>has_more\<close> is false.
\<close>

theorem C7_scan_returns_more_than_size_limit:
  "sq_size_limit ex_scan_request = 1
   \<and> Scan ex_scan_node 7000000 ex_scan_request =
       Some (empty_ScanResponse\<lparr>sr_items := [(''a'', ''1''), (''b'', ''2'')],
                                  sr_has_more := False, sr_success := True\<rparr>)"
  by (simp add: Scan_def ex_scan_node_def ex_open_leader_def ex_leader1_def ex_leader_def
        ex_node_def ex_scan_request_def ex_flags_def NewIterator_Seek_def
        GetUsernameFromUuid_def anonymous_user_def tag_last_applied_index_def ParseValue_def
        IsExpiredSession_def sMaxPBSize_def)

text \<open>
  C10: a Get that is served for a key absent from the store answers with
  \<open>success = true\<close>, \<open>hit = false\<close> and an empty \<open>leader_id\<close>: on the local path
  (a leader out of safe mode, an empty or logged-in uuid, a single node or a recent
  quorum heartbeat) and on the completion of a quorum read (the callback of a reply
  that brings the successes above N/2, on a context not yet triggered).
\<close>

theorem C10_get_missing_key:
  "(status s = kLeader \<and> \<not> in_safe_mode s
      \<and> (gq_uuid request = [] \<or> IsLoggedIn (user_manager s) (gq_uuid request))
      \<and> \<not> (length (members s) > 1
             \<and> now - heartbeat_read_timestamp s > 1000 * elect_timeout_min (flags s))
      \<and> fst (Store_Get (data_store s) (GetUsernameFromUuid (user_manager s) (gq_uuid request))
                (gq_key request)) \<noteq> kOk
    \<longrightarrow> Get s now request =
          Some (GetReplied (empty_GetResponse\<lparr>gr_hit := False, gr_success := True,
                                               gr_leader_id := ''''\<rparr>)))
   \<and> (status s = kLeader \<and> \<not> triggered c \<and> \<not> failed
      \<and> \<not> sint (ar_current_term response) > sint (current_term s)
      \<and> succ_count c + 1 > length (members s) div 2
      \<and> \<not> err_count c > length (members s) div 2
      \<and> fst (Store_Get (data_store s)
                (GetUsernameFromUuid (user_manager s) (gq_uuid (cr_request c)))
                (gq_key (cr_request c))) \<noteq> kOk
    \<longrightarrow> HeartbeatForReadCallback s now c response failed =
          Some (s\<lparr>heartbeat_read_timestamp := now\<rparr>,
                c\<lparr>succ_count := succ_count c + 1,
                  cr_response := (cr_response c)\<lparr>gr_hit := False, gr_success := True,
                                                   gr_leader_id := ''''\<rparr>,
                  done_runs := done_runs c + 1, triggered := True\<rparr>))"
proof -
  have a: "Get s now request =
          Some (GetReplied (empty_GetResponse\<lparr>gr_hit := False, gr_success := True,
                                               gr_leader_id := ''''\<rparr>))"
    if "status s = kLeader" "\<not> in_safe_mode s"
      "gq_uuid request = [] \<or> IsLoggedIn (user_manager s) (gq_uuid request)"
      "\<not> (length (members s) > 1
             \<and> now - heartbeat_read_timestamp s > 1000 * elect_timeout_min (flags s))"
      "fst (Store_Get (data_store s) (GetUsernameFromUuid (user_manager s) (gq_uuid request))
                (gq_key request)) \<noteq> kOk"
    using that read_local_absent [OF that(5), of empty_GetResponse]
    by (auto simp: Get_def)
  have b: "HeartbeatForReadCallback s now c response failed =
          Some (s\<lparr>heartbeat_read_timestamp := now\<rparr>,
                c\<lparr>succ_count := succ_count c + 1,
                  cr_response := (cr_response c)\<lparr>gr_hit := False, gr_success := True,
                                                   gr_leader_id := ''''\<rparr>,
                  done_runs := done_runs c + 1, triggered := True\<rparr>)"
    if "status s = kLeader" "\<not> triggered c" "\<not> failed"
      "\<not> sint (ar_current_term response) > sint (current_term s)"
      "succ_count c + 1 > length (members s) div 2"
      "\<not> err_count c > length (members s) div 2"
      "fst (Store_Get (data_store s)
                (GetUsernameFromUuid (user_manager s) (gq_uuid (cr_request c)))
                (gq_key (cr_request c))) \<noteq> kOk"
    using that read_local_absent [OF that(7), of "cr_response c"]
    by (simp add: HeartbeatForReadCallback_def Let_def)
  show ?thesis
    using a b by blast
qed

theorem C10_get_missing_key_witness:
  "Get ex_open_leader 100 ex_get_request =
     Some (GetReplied (empty_GetResponse\<lparr>gr_hit := False, gr_success := True,
                                          gr_leader_id := ''''\<rparr>))
   \<and> HeartbeatForReadCallback ex_open_leader 7000000 ex_read_ack ex_heartbeat_reply False =
       Some (ex_open_leader\<lparr>heartbeat_read_timestamp := 7000000\<rparr>,
             ex_read_ack\<lparr>succ_count := 2,
               cr_response := empty_GetResponse\<lparr>gr_hit := False, gr_success := True,
                                                  gr_leader_id := ''''\<rparr>,
               done_runs := 1, triggered := True\<rparr>)"
proof -
  have k: "fst (Store_Get (data_store ex_open_leader)
             (GetUsernameFromUuid (user_manager ex_open_leader) (gq_uuid ex_get_request))
             (gq_key ex_get_request)) \<noteq> kOk"
    by (simp add: ex_open_leader_def ex_leader1_def ex_leader_def ex_node_def ex_get_request_def
          Store_Get_def GetUsernameFromUuid_def anonymous_user_def)
  have g: "status ex_open_leader = kLeader \<and> \<not> in_safe_mode ex_open_leader
           \<and> gq_uuid ex_get_request = []
           \<and> \<not> (length (members ex_open_leader) > 1
                  \<and> 100 - heartbeat_read_timestamp ex_open_leader
                      > 1000 * elect_timeout_min (flags ex_open_leader))"
    by (simp add: ex_open_leader_def ex_leader1_def ex_leader_def ex_node_def ex_get_request_def
          ex_flags_def)
  have h: "\<not> triggered ex_read_ack \<and> succ_count ex_read_ack = 1 \<and> err_count ex_read_ack = 0
           \<and> cr_request ex_read_ack = ex_get_request
           \<and> cr_response ex_read_ack = empty_GetResponse \<and> done_runs ex_read_ack = 0
           \<and> \<not> sint (ar_current_term ex_heartbeat_reply) > sint (current_term ex_open_leader)
           \<and> length (members ex_open_leader) = 3"
    by (simp add: ex_read_ack_def ex_heartbeat_reply_def ex_open_leader_def ex_leader1_def
          ex_leader_def ex_node_def)
  show ?thesis
    using C10_get_missing_key [where s = ex_open_leader and request = ex_get_request
        and now = 100 and c = ex_read_ack and failed = False and response = ex_heartbeat_reply]
      C10_get_missing_key [where s = ex_open_leader and request = ex_get_request
        and now = 7000000 and c = ex_read_ack and failed = False
        and response = ex_heartbeat_reply] k g h
    by simp
qed

text \<open>
  C5, as stated: a leader in safe mode rejects Watch with \<open>success = false\<close>, and its
  writes proceed to append a log entry. \<^verbatim>\<open>Watch\<close> has no safe-mode check: on a
  leader in safe mode, long after the start of the server, a watch on an absent key is
  registered and its response held. And a write passes its own admission checks first:
  a Put with a login token that is not logged in is answered with \<open>uuid_expired\<close> and
  appends nothing.
\<close>

theorem C5_watch_not_gated_counterexample:
  "status ex_safe_leader = kLeader \<and> in_safe_mode ex_safe_leader
   \<and> Watch ex_safe_leader 7000000 (CHR 0x00) ex_watch_request =
       Some (ex_safe_leader\<lparr>watch_events := [\<lparr>we_key = ''::k'', we_session_id = ''S1''\<rparr>]\<rparr>,
             None, [])
   \<and> Put ex_safe_leader (ex_put_request\<lparr>pq_uuid := ''u1''\<rparr>) =
       Some (ex_safe_leader, Some uuid_expired_reply)"
  by (simp add: Watch_def watch_reread_def Store_Get_def ParseValue_def
        TriggerEventBySessionAndKey_def IsExpiredSession_def kLock_def Put_def
        ex_safe_leader_def ex_leader1_def ex_leader_def ex_node_def
        ex_watch_request_def ex_put_request_def ex_flags_def RemoveEventBySessionAndKey_def
        BindKeyAndUser_def GetUsernameFromUuid_def IsLoggedIn_def anonymous_user_def Let_def)

text \<open>
  C5, amended: while a node is leader with \<^verbatim>\<open>in_safe_mode\<close> set, Get, Lock and Scan
  are rejected with \<open>success = false\<close> and an empty \<open>leader_id\<close>. Watch does not
  consult the flag (its outcome is the one it has with the flag cleared): with an empty
  or logged-in uuid it is not rejected; it registers the watch and holds the response.
  The exception is a re-read that finds a change, more than
  \<^verbatim>\<open>session_expire_timeout\<close> after the server's start: the stored value without its
  tag differs from the \<open>old_value\<close> of the request, or the existence of the key from
  \<open>key_exist\<close>, or the tag read is Lock and the value names no session of the session
  table (with nothing stored the value is empty and the tag is what the uninitialised
  local \<open>op\<close> holds); then the new watch is completed at once with \<open>success = true\<close>
  and is not kept. The writes Put, Delete and UnLock do not consult the flag either: when
  their own admission checks pass (an empty or logged-in uuid; for Put, the number of
  pending acknowledgements within \<^verbatim>\<open>max_write_pending\<close>) and the framed size
  \<open>21 + |user| + |key| + |value|\<close> of the entry is below \<open>2 ^ 31\<close>, they append their
  log entry.
\<close>

theorem C5_safe_mode_admission:
  assumes "status s = kLeader" "in_safe_mode s"
  shows "(\<exists>r. Get s now gq = Some (GetReplied r) \<and> \<not> gr_success r \<and> gr_leader_id r = '''')
       \<and> (\<exists>r. Lock s now lq = Some (s, Some r) \<and> \<not> ak_success r \<and> ak_leader_id r = '''')
       \<and> (\<exists>r. Scan s now sq = Some r \<and> \<not> sr_success r \<and> sr_leader_id r = '''')
       \<and> Watch s now op0 wq =
             map_option (\<lambda>(s', r, c). (s'\<lparr>in_safe_mode := True\<rparr>, r, c))
               (Watch (s\<lparr>in_safe_mode := False\<rparr>) now op0 wq)
       \<and> (wq_uuid wq = [] \<or> IsLoggedIn (user_manager s) (wq_uuid wq) \<longrightarrow>
           (\<exists>s' rs. Watch s now op0 wq =
                Some (s', None,
                      snd (RemoveEventBySessionAndKey (watch_events s) (wq_session_id wq)
                             (BindKeyAndUser (GetUsernameFromUuid (user_manager s) (wq_uuid wq))
                                (wq_key wq))) @ rs)
              \<and> (if now - server_start_timestamp s > session_expire_timeout (flags s)
                     \<and> watch_changed s op0 wq
                  then (\<exists>r. rs = [r] \<and> wr_success r \<and> wr_leader_id r = '''')
                       \<and> \<lparr>we_key = BindKeyAndUser
                                      (GetUsernameFromUuid (user_manager s) (wq_uuid wq))
                                      (wq_key wq),
                           we_session_id = wq_session_id wq\<rparr> \<notin> set (watch_events s')
                  else rs = []
                       \<and> \<lparr>we_key = BindKeyAndUser
                                      (GetUsernameFromUuid (user_manager s) (wq_uuid wq))
                                      (wq_key wq),
                           we_session_id = wq_session_id wq\<rparr> \<in> set (watch_events s'))))
       \<and> ((pq_uuid pq = [] \<or> IsLoggedIn (user_manager s) (pq_uuid pq))
            \<and> \<not> (0 \<le> max_write_pending (flags s)
                   \<and> int (card (dom (client_ack s))) > max_write_pending (flags s))
            \<and> fits_int32 \<lparr>e_op = kPut,
                            e_user = GetUsernameFromUuid (user_manager s) (pq_uuid pq),
                            e_key = pq_key pq, e_value = pq_value pq,
                            e_term = current_term s\<rparr> \<longrightarrow>
           (\<exists>s'. Put s pq = Some (s', None)
               \<and> log_length (binlogger s') = log_length (binlogger s) + 1
               \<and> ReadSlot (binlogger s') (log_length (binlogger s)) =
                   Some (Some \<lparr>e_op = kPut,
                               e_user = GetUsernameFromUuid (user_manager s) (pq_uuid pq),
                               e_key = pq_key pq, e_value = pq_value pq,
                               e_term = current_term s\<rparr>)))
       \<and> ((dq_uuid dq = [] \<or> IsLoggedIn (user_manager s) (dq_uuid dq))
            \<and> fits_int32 \<lparr>e_op = kDel,
                            e_user = GetUsernameFromUuid (user_manager s) (dq_uuid dq),
                            e_key = dq_key dq, e_value = '''', e_term = current_term s\<rparr> \<longrightarrow>
           (\<exists>s'. Delete s dq = Some (s', None)
               \<and> log_length (binlogger s') = log_length (binlogger s) + 1
               \<and> ReadSlot (binlogger s') (log_length (binlogger s)) =
                   Some (Some \<lparr>e_op = kDel,
                               e_user = GetUsernameFromUuid (user_manager s) (dq_uuid dq),
                               e_key = dq_key dq, e_value = '''', e_term = current_term s\<rparr>)))
       \<and> ((lq_uuid uq = [] \<or> IsLoggedIn (user_manager s) (lq_uuid uq))
            \<and> fits_int32 \<lparr>e_op = kUnLock,
                            e_user = GetUsernameFromUuid (user_manager s) (lq_uuid uq),
                            e_key = lq_key uq, e_value = lq_session_id uq,
                            e_term = current_term s\<rparr> \<longrightarrow>
           (\<exists>s'. UnLock s uq = Some (s', None)
               \<and> log_length (binlogger s') = log_length (binlogger s) + 1
               \<and> ReadSlot (binlogger s') (log_length (binlogger s)) =
                   Some (Some \<lparr>e_op = kUnLock,
                               e_user = GetUsernameFromUuid (user_manager s) (lq_uuid uq),
                               e_key = lq_key uq, e_value = lq_session_id uq,
                               e_term = current_term s\<rparr>)))"
proof -
  have g: "\<exists>r. Get s now gq = Some (GetReplied r) \<and> \<not> gr_success r \<and> gr_leader_id r = ''''"
    using Get_safe_mode [OF assms, of now gq] by (simp add: empty_GetResponse_def)
  note l = Lock_safe_mode [OF assms, of now lq]
  note sc = Scan_safe_mode [OF assms, of now sq]
  have "s\<lparr>in_safe_mode := False, in_safe_mode := True\<rparr> = s"
    using assms(2) by simp
  then have w: "Watch s now op0 wq =
             map_option (\<lambda>(s', r, c). (s'\<lparr>in_safe_mode := True\<rparr>, r, c))
               (Watch (s\<lparr>in_safe_mode := False\<rparr>) now op0 wq)"
    using Watch_ignores_safe_mode [where s = "s\<lparr>in_safe_mode := False\<rparr>" and b = True
        and now = now and request = wq and ?op0.0 = op0] by simp
  note wr = Watch_leader [OF assms(1) _ refl, of wq now op0]
  note p = Put_appends [OF assms(1), of pq]
  note d = Delete_appends [OF assms(1), of dq]
  note u = UnLock_appends [OF assms(1), of uq]
  show ?thesis
    using g l sc w wr p d u by (intro conjI impI) (assumption | blast)+
qed

theorem C5_safe_mode_admission_witness:
  "(\<exists>r. Get ex_safe_leader 7000000 ex_get_request = Some (GetReplied r) \<and> \<not> gr_success r
         \<and> gr_leader_id r = '''')
   \<and> (\<exists>r. Lock ex_safe_leader 7000000 ex_lock_request = Some (ex_safe_leader, Some r)
         \<and> \<not> ak_success r \<and> ak_leader_id r = '''')
   \<and> (\<exists>r. Scan ex_safe_leader 7000000 ex_scan_request = Some r \<and> \<not> sr_success r
         \<and> sr_leader_id r = '''')
   \<and> (\<exists>s'. Watch ex_safe_leader 7000000 (CHR 0x00) ex_watch_request = Some (s', None, [])
         \<and> \<lparr>we_key = ''::k'', we_session_id = ''S1''\<rparr> \<in> set (watch_events s'))
   \<and> (\<exists>s' r. Watch ex_safe_leader 7000000 (CHR 0x00) (ex_watch_request\<lparr>wq_old_value := ''v''\<rparr>)
                = Some (s', None, [r])
         \<and> wr_success r \<and> wr_leader_id r = ''''
         \<and> \<lparr>we_key = ''::k'', we_session_id = ''S1''\<rparr> \<notin> set (watch_events s'))
   \<and> (\<exists>s'. Put ex_safe_leader ex_put_request = Some (s', None)
         \<and> log_length (binlogger s') = 3)
   \<and> (\<exists>s'. Delete ex_safe_leader ex_del_request = Some (s', None)
         \<and> log_length (binlogger s') = 3)
   \<and> (\<exists>s'. UnLock ex_safe_leader ex_lock_request = Some (s', None)
         \<and> log_length (binlogger s') = 3)"
proof -
  have h1: "status ex_safe_leader = kLeader" and h2: "in_safe_mode ex_safe_leader"
    by (simp_all add: ex_safe_leader_def ex_leader1_def ex_leader_def ex_node_def)
  have u: "wq_uuid ex_watch_request = []" "pq_uuid ex_put_request = []"
    "dq_uuid ex_del_request = []" "lq_uuid ex_lock_request = []"
    "wq_uuid (ex_watch_request\<lparr>wq_old_value := ''v''\<rparr>) = []"
    by (simp_all add: ex_watch_request_def ex_put_request_def ex_del_request_def
          ex_lock_request_def)
  have t: "7000000 - server_start_timestamp ex_safe_leader
               > session_expire_timeout (flags ex_safe_leader)"
    by (simp add: ex_safe_leader_def ex_leader1_def ex_leader_def ex_node_def ex_flags_def)
  have wc: "\<not> watch_changed ex_safe_leader (CHR 0x00) ex_watch_request"
    "watch_changed ex_safe_leader (CHR 0x00) (ex_watch_request\<lparr>wq_old_value := ''v''\<rparr>)"
    by (simp_all add: watch_changed_def stored_def GetUsernameFromUuid_def kLock_def
          ex_safe_leader_def ex_leader1_def ex_leader_def ex_node_def ex_watch_request_def
          anonymous_user_def)
  have c: "\<not> (0 \<le> max_write_pending (flags ex_safe_leader)
              \<and> int (card (dom (client_ack ex_safe_leader)))
                   > max_write_pending (flags ex_safe_leader))"
    by (simp add: ex_safe_leader_def ex_leader1_def ex_leader_def ex_node_def ex_flags_def)
  have f: "fits_int32 \<lparr>e_op = kPut,
              e_user = GetUsernameFromUuid (user_manager ex_safe_leader) (pq_uuid ex_put_request),
              e_key = pq_key ex_put_request, e_value = pq_value ex_put_request,
              e_term = current_term ex_safe_leader\<rparr>"
    "fits_int32 \<lparr>e_op = kDel,
              e_user = GetUsernameFromUuid (user_manager ex_safe_leader) (dq_uuid ex_del_request),
              e_key = dq_key ex_del_request, e_value = '''',
              e_term = current_term ex_safe_leader\<rparr>"
    "fits_int32 \<lparr>e_op = kUnLock,
              e_user = GetUsernameFromUuid (user_manager ex_safe_leader) (lq_uuid ex_lock_request),
              e_key = lq_key ex_lock_request, e_value = lq_session_id ex_lock_request,
              e_term = current_term ex_safe_leader\<rparr>"
    by (simp_all add: fits_int32_def GetUsernameFromUuid_def ex_safe_leader_def ex_leader1_def
          ex_leader_def ex_node_def ex_put_request_def ex_del_request_def ex_lock_request_def)
  have l: "log_length (binlogger ex_safe_leader) = 2"
    by (simp add: ex_safe_leader_def ex_leader1_def ex_leader_def ex_node_def ex_log_def)
  have r: "snd (RemoveEventBySessionAndKey (watch_events ex_safe_leader) ''S1'' ''::k'') = []"
    "BindKeyAndUser (GetUsernameFromUuid (user_manager ex_safe_leader) [])
       (wq_key ex_watch_request) = ''::k''"
    "wq_session_id ex_watch_request = ''S1''"
    by (simp_all add: RemoveEventBySessionAndKey_def ex_safe_leader_def ex_leader1_def
          ex_leader_def ex_node_def BindKeyAndUser_def GetUsernameFromUuid_def
          ex_watch_request_def)
  note th = C5_safe_mode_admission [OF h1 h2, where now = 7000000 and gq = ex_get_request
      and lq = ex_lock_request and sq = ex_scan_request and wq = ex_watch_request
      and pq = ex_put_request and dq = ex_del_request and uq = ex_lock_request
      and ?op0.0 = "CHR 0x00"]
  note th2 = C5_safe_mode_admission [OF h1 h2, where now = 7000000
      and wq = "ex_watch_request\<lparr>wq_old_value := ''v''\<rparr>" and ?op0.0 = "CHR 0x00"]
  note g = th [THEN conjunct1]
  note r1 = th [THEN conjunct2]
  note lk = r1 [THEN conjunct1]
  note r2 = r1 [THEN conjunct2]
  note sc = r2 [THEN conjunct1]
  note r4 = r2 [THEN conjunct2, THEN conjunct2]
  note wr = r4 [THEN conjunct1]
  note r5 = r4 [THEN conjunct2]
  note p = r5 [THEN conjunct1]
  note r6 = r5 [THEN conjunct2]
  note d = r6 [THEN conjunct1]
  note uu = r6 [THEN conjunct2]
  note wr2 = th2 [THEN conjunct2, THEN conjunct2, THEN conjunct2, THEN conjunct2,
      THEN conjunct1]
  have w1: "\<exists>s'. Watch ex_safe_leader 7000000 (CHR 0x00) ex_watch_request = Some (s', None, [])
         \<and> \<lparr>we_key = ''::k'', we_session_id = ''S1''\<rparr> \<in> set (watch_events s')"
    using wr u(1) t wc(1) r by simp
  have w2: "\<exists>s' r. Watch ex_safe_leader 7000000 (CHR 0x00)
                       (ex_watch_request\<lparr>wq_old_value := ''v''\<rparr>) = Some (s', None, [r])
         \<and> wr_success r \<and> wr_leader_id r = ''''
         \<and> \<lparr>we_key = ''::k'', we_session_id = ''S1''\<rparr> \<notin> set (watch_events s')"
    using wr2 u(5) t wc(2) r by (simp del: One_nat_def) blast
  show ?thesis
    using g lk sc w1 w2 p d uu u c f l by (simp del: One_nat_def) blast
qed

text \<open>
  C6, as stated: case (c) grants the lock whenever the stored value is the lock of the
  caller's own session. If that session is no longer in the session table the request
  is rejected.
\<close>

theorem C6_own_expired_session_counterexample:
  "status ex_lock_node = kLeader \<and> \<not> in_safe_mode ex_lock_node
   \<and> stored (data_store ex_lock_node) '''' (lq_key ex_lock_request)
       = Some (op_char kLock # lq_session_id ex_lock_request)
   \<and> Lock ex_lock_node 7000000 ex_lock_request = Some (ex_lock_node, Some (redirect ''''))
   \<and> \<not> ak_success (redirect '''')"
  by (simp add: Lock_def LockIsAvailable_def Store_Get_def ParseValue_def stored_def
        ex_lock_node_def ex_open_leader_def ex_leader1_def ex_leader_def ex_node_def
        ex_lock_request_def ex_flags_def GetUsernameFromUuid_def anonymous_user_def
        redirect_def empty_AckResponse_def Let_def)


text \<open>
  C6, amended: a leader that admits a Lock(key, session) request (out of safe mode, past
  the start-up window, an empty or logged-in uuid, the caller's namespace open) grants
  it, appending a Lock entry and writing the Lock-tagged value at once, if and only if
  (a) the key is absent from the caller's namespace and the caller's session exists, or
  (b) the stored value is Lock-tagged, its owning session is gone and the caller's
  session exists, or (c) the stored value is Lock-tagged, owned by the caller's own
  session, and that session exists. Otherwise it answers \<open>success = false\<close> with an
  empty \<open>leader_id\<close>. Consequently a granted Lock(k,S) followed by Lock(k,S) is
  granted again, and Lock(k,S') on a lock held by a different live session fails.
\<close>

theorem C6_lock_grant:
  assumes "status s = kLeader" "\<not> in_safe_mode s"
    and "lq_uuid request = [] \<or> IsLoggedIn (user_manager s) (lq_uuid request)"
    and "\<not> now - server_start_timestamp s < session_expire_timeout (flags s)"
    and "user = GetUsernameFromUuid (user_manager s) (lq_uuid request)"
    and "data_store s user \<noteq> None"
    and "stored (data_store s) user (lq_key request) \<noteq> Some []"
    and "fits_int32 \<lparr>e_op = kLock, e_user = user, e_key = lq_key request,
                      e_value = lq_session_id request, e_term = current_term s\<rparr>"
  shows "(lock_grantable s user (lq_key request) (lq_session_id request) \<longrightarrow>
           (\<exists>s'. Lock s now request = Some (s', None)
              \<and> log_length (binlogger s') = log_length (binlogger s) + 1
              \<and> ReadSlot (binlogger s') (log_length (binlogger s)) =
                  Some (Some \<lparr>e_op = kLock, e_user = user, e_key = lq_key request,
                              e_value = lq_session_id request, e_term = current_term s\<rparr>)
              \<and> stored (data_store s') user (lq_key request)
                  = Some (op_char kLock # lq_session_id request)
              \<and> (\<exists>s''. Lock s' now request = Some (s'', None))))
       \<and> (\<not> lock_grantable s user (lq_key request) (lq_session_id request) \<longrightarrow>
           Lock s now request = Some (s, Some (redirect '''')))
       \<and> (\<forall>owner. stored (data_store s) user (lq_key request) = Some (op_char kLock # owner)
              \<and> owner \<noteq> lq_session_id request \<and> sessions s owner \<noteq> None \<longrightarrow>
           Lock s now request = Some (s, Some (redirect '''')))
       \<and> \<not> ak_success (redirect '''') \<and> ak_leader_id (redirect '''') = ''''"
proof -
  note dec = Lock_decision [OF assms]
  have grant: "\<exists>s'. Lock s now request = Some (s', None)
              \<and> log_length (binlogger s') = log_length (binlogger s) + 1
              \<and> ReadSlot (binlogger s') (log_length (binlogger s)) =
                  Some (Some \<lparr>e_op = kLock, e_user = user, e_key = lq_key request,
                              e_value = lq_session_id request, e_term = current_term s\<rparr>)
              \<and> stored (data_store s') user (lq_key request)
                  = Some (op_char kLock # lq_session_id request)
              \<and> (\<exists>s''. Lock s' now request = Some (s'', None))"
    if g: "lock_grantable s user (lq_key request) (lq_session_id request)"
  proof -
    from dec(1) [OF g] obtain s' where
      l: "Lock s now request = Some (s', None)"
      and b: "log_length (binlogger s') = log_length (binlogger s) + 1"
        "ReadSlot (binlogger s') (log_length (binlogger s)) =
           Some (Some \<lparr>e_op = kLock, e_user = user, e_key = lq_key request,
                       e_value = lq_session_id request, e_term = current_term s\<rparr>)"
      and v: "stored (data_store s') user (lq_key request)
                = Some (op_char kLock # lq_session_id request)"
      and o: "data_store s' user \<noteq> None"
      and same: "status s' = status s" "in_safe_mode s' = in_safe_mode s"
        "user_manager s' = user_manager s" "sessions s' = sessions s" "flags s' = flags s"
        "server_start_timestamp s' = server_start_timestamp s" "current_term s' = current_term s"
      by blast
    have live: "sessions s (lq_session_id request) \<noteq> None"
      using g by (auto simp: lock_grantable_def split: option.splits list.splits)
    have g': "lock_grantable s' user (lq_key request) (lq_session_id request)"
      using v live same(4) by (simp add: lock_grantable_def)
    have "\<exists>s''. Lock s' now request = Some (s'', None)"
      using Lock_decision(1) [of s' request now user, OF _ _ _ _ _ o _ _ g'] assms v same
      by auto
    then show ?thesis
      using l b v by blast
  qed
  have excl: "Lock s now request = Some (s, Some (redirect ''''))"
    if "stored (data_store s) user (lq_key request) = Some (op_char kLock # owner)"
      "owner \<noteq> lq_session_id request" "sessions s owner \<noteq> None" for owner
  proof -
    have "\<not> lock_grantable s user (lq_key request) (lq_session_id request)"
      using that by (simp add: lock_grantable_def)
    then show ?thesis
      by (rule dec(2))
  qed
  have r: "\<not> ak_success (redirect '''') \<and> ak_leader_id (redirect '''') = ''''"
    by (simp add: redirect_def empty_AckResponse_def)
  show ?thesis
    using grant dec(2) excl r by blast
qed


theorem C6_lock_grant_witness:
  "(\<exists>s'. Lock ex_lock_node_live 7000000 ex_lock_request = Some (s', None)
      \<and> log_length (binlogger s') = 3
      \<and> (\<exists>s''. Lock s' 7000000 ex_lock_request = Some (s'', None)))
   \<and> Lock ex_lock_node_live 7000000 (ex_lock_request\<lparr>lq_session_id := ''S2''\<rparr>)
       = Some (ex_lock_node_live, Some (redirect ''''))"
proof -
  note defs = ex_lock_node_live_def ex_lock_node_def ex_open_leader_def ex_leader1_def
    ex_leader_def ex_node_def ex_lock_request_def ex_flags_def GetUsernameFromUuid_def
    anonymous_user_def
  have h1: "status ex_lock_node_live = kLeader" and h2: "\<not> in_safe_mode ex_lock_node_live"
    and h4: "\<not> 7000000 - server_start_timestamp ex_lock_node_live
                 < session_expire_timeout (flags ex_lock_node_live)"
    and h6: "data_store ex_lock_node_live '''' \<noteq> None"
    by (simp_all add: defs)
  have h3: "lq_uuid r = [] \<Longrightarrow> lq_uuid r = [] \<or> IsLoggedIn (user_manager ex_lock_node_live) (lq_uuid r)"
    for r by simp
  have u1: "lq_uuid ex_lock_request = []"
    and u2: "lq_uuid (ex_lock_request\<lparr>lq_session_id := ''S2''\<rparr>) = []"
    by (simp_all add: ex_lock_request_def)
  have h5: "'''' = GetUsernameFromUuid (user_manager ex_lock_node_live) (lq_uuid r)"
    if "lq_uuid r = []" for r
    using that by (simp add: defs)
  have h7: "stored (data_store ex_lock_node_live) '''' (lq_key r) \<noteq> Some []"
    if "lq_key r = ''k''" for r
    using that by (simp add: defs stored_def)
  have k1: "lq_key ex_lock_request = ''k''"
    and k2: "lq_key (ex_lock_request\<lparr>lq_session_id := ''S2''\<rparr>) = ''k''"
    by (simp_all add: ex_lock_request_def)
  have h8: "fits_int32 \<lparr>e_op = kLock, e_user = '''', e_key = lq_key ex_lock_request,
                         e_value = lq_session_id ex_lock_request,
                         e_term = current_term ex_lock_node_live\<rparr>"
    "fits_int32 \<lparr>e_op = kLock, e_user = '''',
                  e_key = lq_key (ex_lock_request\<lparr>lq_session_id := ''S2''\<rparr>),
                  e_value = lq_session_id (ex_lock_request\<lparr>lq_session_id := ''S2''\<rparr>),
                  e_term = current_term ex_lock_node_live\<rparr>"
    by (simp_all add: fits_int32_def ex_lock_request_def)
  have g1: "lock_grantable ex_lock_node_live '''' (lq_key ex_lock_request)
              (lq_session_id ex_lock_request)"
    by (simp add: lock_grantable_def stored_def defs)
  have g2: "\<not> lock_grantable ex_lock_node_live ''''
                (lq_key (ex_lock_request\<lparr>lq_session_id := ''S2''\<rparr>))
                (lq_session_id (ex_lock_request\<lparr>lq_session_id := ''S2''\<rparr>))"
    by (simp add: lock_grantable_def stored_def defs)
  have l: "log_length (binlogger ex_lock_node_live) = 2"
    by (simp add: defs ex_log_def)
  note a = C6_lock_grant [OF h1 h2 h3 [OF u1] h4 h5 [OF u1] h6 h7 [OF k1] h8(1)]
  note b = C6_lock_grant [OF h1 h2 h3 [OF u2] h4 h5 [OF u2] h6 h7 [OF k2] h8(2)]
  have "\<exists>s'. Lock ex_lock_node_live 7000000 ex_lock_request = Some (s', None)
      \<and> log_length (binlogger s') = 3
      \<and> (\<exists>s''. Lock s' 7000000 ex_lock_request = Some (s'', None))"
    using a [THEN conjunct1] g1 l by auto
  moreover have "Lock ex_lock_node_live 7000000 (ex_lock_request\<lparr>lq_session_id := ''S2''\<rparr>)
       = Some (ex_lock_node_live, Some (redirect ''''))"
    using b [THEN conjunct2, THEN conjunct1] g2 by blast
  ultimately show ?thesis ..
qed

text \<open>
  C8, as stated: applying a Put or Del entry whose key has a parent writes the
  synthetic value to the parent key. Nothing is written there: after the Put on
  \<open>a/b/c\<close> is applied, the key \<open>a/b\<close> is still unset.
\<close>

theorem C8_put_parent_counterexample:
  "ReadSlot (binlogger ex_apply_node) 0 = Some (Some ex_entry_put_child)
   \<and> e_op ex_entry_put_child = kPut
   \<and> GetParentKey (e_key ex_entry_put_child) = Some ''a/b''
   \<and> apply_entry ex_apply_node False 0 = Some (ex_apply_node_after_put, False, None)
   \<and> stored (data_store ex_apply_node_after_put) (e_user ex_entry_put_child) ''a/b'' = None"
proof -
  have "apply_entry ex_apply_node False 0 = Some (ex_apply_node_after_put, False, None)"
    unfolding apply_entry_def ReadSlot_ex_apply_node(1)
    by (simp add: apply_op_def ex_entry_put_child_def
          put_open_def Store_Put_def ex_apply_node_def ex_node_def ex_apply_node_after_put_def
          anonymous_user_def tag_last_applied_index_def BindKeyAndUser_def Let_def)
  moreover have "stored (data_store ex_apply_node_after_put) (e_user ex_entry_put_child) ''a/b''
                   = None"
    by (simp add: stored_def ex_apply_node_after_put_def ex_entry_put_child_def
          anonymous_user_def tag_last_applied_index_def)
  moreover have "GetParentKey (e_key ex_entry_put_child) = Some ''a/b''"
    by (simp add: GetParentKey_def ex_entry_put_child_def)
  ultimately show ?thesis
    using ReadSlot_ex_apply_node(1) by (simp add: ex_entry_put_child_def)
qed

text \<open>
  C8, amended: when the application worker applies a Lock entry, or an Unlock entry
  whose key holds the Lock-tagged value of the entry's session, and the key has a
  parent (the key contains a \<^verbatim>\<open>/\<close>; the parent is the prefix up to the last
  \<^verbatim>\<open>/\<close>), it writes the Put-tagged value \<open><action>,<session_id>\<close> (\<open>lock\<close> or
  \<open>unlock\<close>) to the parent key in the same user's namespace. Applying a Put or Del
  entry writes nothing to the parent key: the value stored under it stays what it was.
  All four queue one \<^verbatim>\<open>TriggerEventWithParent\<close> call for the changed key. An Unlock
  entry whose key holds nothing, or a non-empty value other than the Lock-tagged value
  of the entry's session, writes nothing to the parent key and queues no call. This is
  stated for a node whose anonymous namespace is open, as the constructor leaves it,
  and for a parent key other than the worker's bookkeeping key
  \<^verbatim>\<open>#TAG_LAST_APPLIED_INDEX#\<close> of the anonymous namespace, which the worker rewrites
  after every entry.
\<close>

theorem C8_parent_key_written:
  assumes "ReadSlot (binlogger s) i = Some (Some e)"
    and "e_key e = parent @ CHR ''/'' # child" and "CHR ''/'' \<notin> set child"
    and "\<not> (e_user e = anonymous_user \<and> parent = tag_last_applied_index)"
    and "data_store s anonymous_user \<noteq> None"
  shows "(e_op e = kLock \<longrightarrow>
            (\<exists>s' n a. apply_entry s nop i = Some (s', n, a)
               \<and> stored (data_store s') (e_user e) parent
                   = Some (op_char kPut # ''lock'' @ '','' @ e_value e)
               \<and> event_trigger s' = event_trigger s
                   @ [(BindKeyAndUser (e_user e) (e_key e), e_value e, False)]))
       \<and> (e_op e = kUnLock
            \<and> stored (data_store s) (e_user e) (e_key e) = Some (op_char kLock # e_value e) \<longrightarrow>
            (\<exists>s' n a. apply_entry s nop i = Some (s', n, a)
               \<and> stored (data_store s') (e_user e) parent
                   = Some (op_char kPut # ''unlock'' @ '','' @ e_value e)
               \<and> event_trigger s' = event_trigger s
                   @ [(BindKeyAndUser (e_user e) (e_key e), e_value e, True)]))
       \<and> (e_op e = kUnLock
            \<and> stored (data_store s) (e_user e) (e_key e) \<noteq> Some (op_char kLock # e_value e)
            \<and> stored (data_store s) (e_user e) (e_key e) \<noteq> Some [] \<longrightarrow>
            (\<exists>s' n a. apply_entry s nop i = Some (s', n, a)
               \<and> stored (data_store s') (e_user e) parent
                   = stored (data_store s) (e_user e) parent
               \<and> event_trigger s' = event_trigger s))
       \<and> (e_op e = kPut \<or> e_op e = kDel \<longrightarrow>
            (\<exists>s' n a. apply_entry s nop i = Some (s', n, a)
               \<and> stored (data_store s') (e_user e) parent
                   = stored (data_store s) (e_user e) parent
               \<and> event_trigger s' = event_trigger s
                   @ [(BindKeyAndUser (e_user e) (e_key e), e_value e, e_op e = kDel)]))"
proof -
  have gp: "GetParentKey (e_key e) = Some parent"
    using assms(2,3) by (simp add: GetParentKey_last_slash)
  note pk = GetParentKey_neq [OF gp]
  have lock: "\<exists>s' n a. apply_entry s nop i = Some (s', n, a)
               \<and> stored (data_store s') (e_user e) parent
                   = Some (op_char kPut # ''lock'' @ '','' @ e_value e)
               \<and> event_trigger s' = event_trigger s
                   @ [(BindKeyAndUser (e_user e) (e_key e), e_value e, False)]"
    if op: "e_op e = kLock"
  proof -
    let ?sm = "snd (put_open (data_store s) (e_user e) (e_key e) (op_char kLock # e_value e))"
    from apply_op_Lock [OF op, of s nop] obtain s1 where
      a: "apply_op s nop e = Some (s1, nop, kError, '''')" and
      d: "data_store s1 = TouchParentKey ?sm (e_user e) (e_key e) (e_value e) ''lock''" and
      t: "event_trigger s1 = event_trigger s
            @ [(BindKeyAndUser (e_user e) (e_key e), e_value e, False)]"
      by blast
    have u: "?sm (e_user e) \<noteq> None"
      by (rule put_open_stored(4))
    have an: "data_store s1 anonymous_user \<noteq> None"
      using d TouchParentKey_stored(2) [where sm = "?sm" and n = "e_user e", OF gp u]
        put_open_stored(3) [where sm = "data_store s" and n' = anonymous_user, OF assms(5)]
      by simp
    have v: "stored (data_store s1) (e_user e) parent
               = Some (op_char kPut # ''lock'' @ '','' @ e_value e)"
      using d TouchParentKey_stored(1) [where sm = "?sm" and n = "e_user e", OF gp u] by simp
    from apply_entry_tail [OF assms(1) a an] v t assms(4) show ?thesis
      by auto
  qed
  have unlock: "\<exists>s' n a. apply_entry s nop i = Some (s', n, a)
               \<and> stored (data_store s') (e_user e) parent
                   = Some (op_char kPut # ''unlock'' @ '','' @ e_value e)
               \<and> event_trigger s' = event_trigger s
                   @ [(BindKeyAndUser (e_user e) (e_key e), e_value e, True)]"
    if op: "e_op e = kUnLock"
      and held: "stored (data_store s) (e_user e) (e_key e) = Some (op_char kLock # e_value e)"
  proof -
    let ?sm = "snd (delete_open (data_store s) (e_user e) (e_key e))"
    from apply_op_UnLock [OF op held, of nop] obtain s1 where
      a: "apply_op s nop e = Some (s1, nop, kError, '''')" and
      d: "data_store s1 = TouchParentKey ?sm (e_user e) (e_key e) (e_value e) ''unlock''" and
      t: "event_trigger s1 = event_trigger s
            @ [(BindKeyAndUser (e_user e) (e_key e), e_value e, True)]"
      by blast
    have u: "?sm (e_user e) \<noteq> None"
      by (rule delete_open_stored(4))
    have an: "data_store s1 anonymous_user \<noteq> None"
      using d TouchParentKey_stored(2) [where sm = "?sm" and n = "e_user e", OF gp u]
        delete_open_stored(3) [where sm = "data_store s" and n' = anonymous_user, OF assms(5)]
      by simp
    have v: "stored (data_store s1) (e_user e) parent
               = Some (op_char kPut # ''unlock'' @ '','' @ e_value e)"
      using d TouchParentKey_stored(1) [where sm = "?sm" and n = "e_user e", OF gp u] by simp
    from apply_entry_tail [OF assms(1) a an] v t assms(4) show ?thesis
      by auto
  qed
  have idle: "\<exists>s' n a. apply_entry s nop i = Some (s', n, a)
               \<and> stored (data_store s') (e_user e) parent
                   = stored (data_store s) (e_user e) parent
               \<and> event_trigger s' = event_trigger s"
    if op: "e_op e = kUnLock"
      and other: "stored (data_store s) (e_user e) (e_key e) \<noteq> Some (op_char kLock # e_value e)"
        "stored (data_store s) (e_user e) (e_key e) \<noteq> Some []"
    using apply_entry_tail [OF assms(1) apply_op_UnLock_other [OF op other, of nop] assms(5)]
      assms(4)
    by auto
  have plain: "\<exists>s' n a. apply_entry s nop i = Some (s', n, a)
               \<and> stored (data_store s') (e_user e) parent
                   = stored (data_store s) (e_user e) parent
               \<and> event_trigger s' = event_trigger s
                   @ [(BindKeyAndUser (e_user e) (e_key e), e_value e, e_op e = kDel)]"
    if op: "e_op e = kPut \<or> e_op e = kDel"
  proof -
    from op obtain s1 where
      a: "apply_op s nop e = Some (s1, nop, kError, '''')" and
      d: "data_store s1 = snd (put_open (data_store s) (e_user e) (e_key e)
                                 (op_char kPut # e_value e))
          \<or> data_store s1 = snd (delete_open (data_store s) (e_user e) (e_key e))" and
      t: "event_trigger s1 = event_trigger s
            @ [(BindKeyAndUser (e_user e) (e_key e), e_value e, e_op e = kDel)]"
      using apply_op_Put [of e s nop] apply_op_Del [of e s nop] by auto
    have an: "data_store s1 anonymous_user \<noteq> None"
      using d put_open_stored(3) [where sm = "data_store s" and n' = anonymous_user, OF assms(5)]
        delete_open_stored(3) [where sm = "data_store s" and n' = anonymous_user, OF assms(5)]
      by auto
    have v: "stored (data_store s1) (e_user e) parent = stored (data_store s) (e_user e) parent"
      using d pk put_open_stored(2) delete_open_stored(2) by auto
    from apply_entry_tail [OF assms(1) a an] v t assms(4) show ?thesis
      by auto
  qed
  show ?thesis
    using lock unlock idle plain by blast
qed

theorem C8_parent_key_written_witness:
  "(\<exists>s' n a. apply_entry ex_apply_node False 1 = Some (s', n, a)
      \<and> stored (data_store s') '''' ''a/b'' = Some (op_char kPut # ''lock,S1'')
      \<and> event_trigger s' = [(''::a/b/c'', ''S1'', False)])
   \<and> (\<exists>s' n a. apply_entry ex_unlock_node False 0 = Some (s', n, a)
      \<and> stored (data_store s') '''' ''a/b'' = Some (op_char kPut # ''unlock,S1'')
      \<and> event_trigger s' = [(''::a/b/c'', ''S1'', True)])
   \<and> (\<exists>s' n a. apply_entry ex_unlock_node_other False 0 = Some (s', n, a)
      \<and> stored (data_store s') '''' ''a/b'' = None
      \<and> event_trigger s' = [])
   \<and> (\<exists>s' n a. apply_entry ex_apply_node False 0 = Some (s', n, a)
      \<and> stored (data_store s') '''' ''a/b'' = None
      \<and> event_trigger s' = [(''::a/b/c'', ''v'', False)])"
proof -
  have t: "\<not> ('''' = anonymous_user \<and> ''a/b'' = tag_last_applied_index)"
    by (simp add: tag_last_applied_index_def)
  have o: "data_store ex_apply_node anonymous_user \<noteq> None"
    "data_store ex_unlock_node anonymous_user \<noteq> None"
    "data_store ex_unlock_node_other anonymous_user \<noteq> None"
    by (simp_all add: ex_apply_node_def ex_unlock_node_def ex_unlock_node_other_def ex_node_def)
  have "Load (framing ex_entry_unlock_child) = Some ex_entry_unlock_child"
    by (rule Load_framing) (simp_all add: ex_entry_unlock_child_def)
  then have ru: "ReadSlot (binlogger ex_unlock_node) 0 = Some (Some ex_entry_unlock_child)"
    "ReadSlot (binlogger ex_unlock_node_other) 0 = Some (Some ex_entry_unlock_child)"
    by (simp_all add: ReadSlot_def ex_unlock_node_def ex_unlock_node_other_def)
  have f: "e_key ex_entry_lock_child = ''a/b/c''" "e_user ex_entry_lock_child = ''''"
    "e_op ex_entry_lock_child = kLock" "e_value ex_entry_lock_child = ''S1''"
    "e_key ex_entry_put_child = ''a/b/c''" "e_user ex_entry_put_child = ''''"
    "e_op ex_entry_put_child = kPut" "e_value ex_entry_put_child = ''v''"
    "e_key ex_entry_unlock_child = ''a/b/c''" "e_user ex_entry_unlock_child = ''''"
    "e_op ex_entry_unlock_child = kUnLock" "e_value ex_entry_unlock_child = ''S1''"
    by (simp_all add: ex_entry_lock_child_def ex_entry_put_child_def ex_entry_unlock_child_def)
  have held: "stored (data_store ex_unlock_node) '''' ''a/b/c'' = Some (op_char kLock # ''S1'')"
    and other: "stored (data_store ex_unlock_node_other) '''' ''a/b/c''
                  = Some (op_char kLock # ''S2'')"
    and unset: "stored (data_store ex_apply_node) '''' ''a/b'' = None"
      "stored (data_store ex_unlock_node_other) '''' ''a/b'' = None"
    and q: "event_trigger ex_apply_node = []" "event_trigger ex_unlock_node = []"
      "event_trigger ex_unlock_node_other = []"
    by (simp_all add: stored_def ex_unlock_node_def ex_unlock_node_other_def ex_apply_node_def
          ex_node_def anonymous_user_def)
  have bk: "BindKeyAndUser '''' ''a/b/c'' = ''::a/b/c''"
    by (simp add: BindKeyAndUser_def)
  note a = C8_parent_key_written [where s = ex_apply_node and i = 1 and nop = False
      and e = ex_entry_lock_child and parent = "''a/b''" and child = "''c''",
      OF ReadSlot_ex_apply_node(2)]
  note b = C8_parent_key_written [where s = ex_unlock_node and i = 0 and nop = False
      and e = ex_entry_unlock_child and parent = "''a/b''" and child = "''c''", OF ru(1)]
  note d = C8_parent_key_written [where s = ex_unlock_node_other and i = 0 and nop = False
      and e = ex_entry_unlock_child and parent = "''a/b''" and child = "''c''", OF ru(2)]
  note c = C8_parent_key_written [where s = ex_apply_node and i = 0 and nop = False
      and e = ex_entry_put_child and parent = "''a/b''" and child = "''c''",
      OF ReadSlot_ex_apply_node(1)]
  have "\<exists>s' n a. apply_entry ex_apply_node False 1 = Some (s', n, a)
      \<and> stored (data_store s') '''' ''a/b'' = Some (op_char kPut # ''lock,S1'')
      \<and> event_trigger s' = [(''::a/b/c'', ''S1'', False)]"
    using a t o(1) f q bk by simp
  moreover have "\<exists>s' n a. apply_entry ex_unlock_node False 0 = Some (s', n, a)
      \<and> stored (data_store s') '''' ''a/b'' = Some (op_char kPut # ''unlock,S1'')
      \<and> event_trigger s' = [(''::a/b/c'', ''S1'', True)]"
    using b t o(2) f held q bk by simp
  moreover have "\<exists>s' n a. apply_entry ex_unlock_node_other False 0 = Some (s', n, a)
      \<and> stored (data_store s') '''' ''a/b'' = None
      \<and> event_trigger s' = []"
    using d t o(3) f other unset q by simp
  moreover have "\<exists>s' n a. apply_entry ex_apply_node False 0 = Some (s', n, a)
      \<and> stored (data_store s') '''' ''a/b'' = None
      \<and> event_trigger s' = [(''::a/b/c'', ''v'', False)]"
    using c t o(1) f unset q bk by simp
  ultimately show ?thesis
    by blast
qed

end
